theory Spec2Isabelle
  imports Complex_Main "HOL-Library.Word" "HOL-Library.Sublist" "HOL-Library.Multiset"
begin

section \<open>Strings of the source language\<close>

text \<open>
  A string of the source is a sequence of UTF-16 code units; \<open>length\<close>, \<open>includes\<close>,
  \<open>split\<close>, \<open>trim\<close>, \<open>endsWith\<close> and the regular expressions of \<open>App.tsx\<close> (none has
  the \<open>u\<close> flag) all work on code units. The Hangul text of the source is written here by
  its code units.
\<close>

type_synonym jschar = "16 word"
type_synonym jsstring = "jschar list"

text \<open>
  White space as \<open>String.prototype.trim\<close> and the class \<open>\s\<close> understand it (the two
  agree): TAB, LF, VT, FF, CR, SPACE, NBSP, U+1680, U+2000 to U+200A, LS, PS, U+202F,
  U+205F, U+3000 and U+FEFF.
\<close>

definition is_ws :: "jschar \<Rightarrow> bool" where
  "is_ws c \<longleftrightarrow>
     c = 0x0009 \<or> c = 0x000A \<or> c = 0x000B \<or> c = 0x000C \<or> c = 0x000D \<or> c = 0x0020 \<or>
     c = 0x00A0 \<or> c = 0x1680 \<or> (0x2000 \<le> c \<and> c \<le> 0x200A) \<or> c = 0x2028 \<or>
     c = 0x2029 \<or> c = 0x202F \<or> c = 0x205F \<or> c = 0x3000 \<or> c = 0xFEFF"

definition SPACE :: jschar where
  "SPACE = 0x0020"

text \<open>\<open>s.trim()\<close>: white space removed from both ends.\<close>

definition trim :: "jsstring \<Rightarrow> jsstring" where
  "trim s = rev (dropWhile is_ws (rev (dropWhile is_ws s)))"

text \<open>
  \<open>s.split(/\s+/)\<close>: the pieces of \<open>s\<close> between maximal runs of white space. A run at
  the start or at the end of \<open>s\<close> leaves an empty piece there, and the empty string
  splits into one empty piece. \<open>cur\<close> is the piece being read.
\<close>

function split_ws_from :: "jsstring \<Rightarrow> jsstring \<Rightarrow> jsstring list" where
  "split_ws_from cur [] = [cur]"
| "split_ws_from cur (c # cs) =
     (if is_ws c then cur # split_ws_from [] (dropWhile is_ws cs)
      else split_ws_from (cur @ [c]) cs)"
  by pat_completeness auto
termination
proof (relation "measure (\<lambda>(cur, s). length s)")
  fix cur :: jsstring and c :: jschar and cs :: jsstring
  have "length (dropWhile is_ws cs) \<le> length cs"
    by (rule length_dropWhile_le)
  then show "(([], dropWhile is_ws cs), (cur, c # cs)) \<in> measure (\<lambda>(cur, s). length s)"
    by simp
qed simp_all

definition split_ws :: "jsstring \<Rightarrow> jsstring list" where
  "split_ws s = split_ws_from [] s"

text \<open>\<open>s.split(sep)\<close> for a separator of one code unit.\<close>

fun split_chr_from :: "jschar \<Rightarrow> jsstring \<Rightarrow> jsstring \<Rightarrow> jsstring list" where
  "split_chr_from sep cur [] = [cur]"
| "split_chr_from sep cur (c # cs) =
     (if c = sep then cur # split_chr_from sep [] cs
      else split_chr_from sep (cur @ [c]) cs)"

definition split_chr :: "jschar \<Rightarrow> jsstring \<Rightarrow> jsstring list" where
  "split_chr sep s = split_chr_from sep [] s"

text \<open>\<open>hay.includes(needle)\<close>: the needle is tried at every position of the haystack.\<close>

fun str_includes :: "jsstring \<Rightarrow> jsstring \<Rightarrow> bool" where
  "str_includes [] needle = (needle = [])"
| "str_includes (c # cs) needle = (prefix needle (c # cs) \<or> str_includes cs needle)"

text \<open>\<open>s.endsWith(suf)\<close>.\<close>

definition endsWith :: "jsstring \<Rightarrow> jsstring \<Rightarrow> bool" where
  "endsWith s suf \<longleftrightarrow> length suf \<le> length s \<and> drop (length s - length suf) s = suf"

section \<open>Regular expressions\<close>

text \<open>
  The fragment of regular expressions that \<open>typoRegex\<close> uses: a class of code units, a
  class repeated once or more, sequence, alternative and the end-of-input assertion
  \<open>$\<close>. \<open>rx_match r s\<close> lists what can remain of \<open>s\<close> after \<open>r\<close> has matched at its start;
  \<open>rx_test r s\<close> tries every start position, as \<open>r.test(s)\<close> does for a pattern that is
  not anchored at its left.
\<close>

datatype rx =
    Cls "jschar \<Rightarrow> bool"
  | ClsPlus "jschar \<Rightarrow> bool"
  | Seq rx rx
  | Alt rx rx
  | Eoi

fun cls_plus :: "(jschar \<Rightarrow> bool) \<Rightarrow> jsstring \<Rightarrow> jsstring list" where
  "cls_plus p [] = []"
| "cls_plus p (c # cs) = (if p c then cs # cls_plus p cs else [])"

fun rx_match :: "rx \<Rightarrow> jsstring \<Rightarrow> jsstring list" where
  "rx_match (Cls p) s = (case s of [] \<Rightarrow> [] | c # cs \<Rightarrow> if p c then [cs] else [])"
| "rx_match (ClsPlus p) s = cls_plus p s"
| "rx_match (Seq a b) s = concat (map (rx_match b) (rx_match a s))"
| "rx_match (Alt a b) s = rx_match a s @ rx_match b s"
| "rx_match Eoi s = (if s = [] then [[]] else [])"

fun rx_test :: "rx \<Rightarrow> jsstring \<Rightarrow> bool" where
  "rx_test r [] = (rx_match r [] \<noteq> [])"
| "rx_test r (c # cs) = (rx_match r (c # cs) \<noteq> [] \<or> rx_test r cs)"

section \<open>The address validator\<close>

text \<open>The class \<open>[U+AC00-U+D7A3]\<close> of Hangul syllables, and the four syllables the
  pattern names: si (U+C2DC), do (U+B3C4), gun (U+AD70), gu (U+AD6C).\<close>

definition hangul :: "jschar \<Rightarrow> bool" where
  "hangul c \<longleftrightarrow> 0xAC00 \<le> c \<and> c \<le> 0xD7A3"

definition SI :: jschar where "SI = 0xC2DC"
definition DO :: jschar where "DO = 0xB3C4"
definition GUN :: jschar where "GUN = 0xAD70"
definition GU :: jschar where "GU = 0xAD6C"

text \<open>\<open>typoRegex\<close>: Hangul+ (si|do) Hangul+ (si|gun|gu) \<open>$\<close>.\<close>

definition typoRegex :: rx where
  "typoRegex =
     Seq (ClsPlus hangul)
       (Seq (Alt (Cls (\<lambda>c. c = SI)) (Cls (\<lambda>c. c = DO)))
         (Seq (ClsPlus hangul)
           (Seq (Alt (Cls (\<lambda>c. c = SI)) (Alt (Cls (\<lambda>c. c = GUN)) (Cls (\<lambda>c. c = GU))))
             Eoi)))"

text \<open>The messages that \<open>validateSearchInput\<close> passes to \<open>setErrorMsg\<close>. The test for
  spaces and the test for concatenated levels set the same message.\<close>

definition MSG_REQUIRED :: jsstring where
  "MSG_REQUIRED = [0xC8FC, 0xC18C, 0xB97C, 0x0020, 0xC785, 0xB825, 0xD574, 0xC8FC, 0xC138,
     0xC694, 0x002E]"

definition MSG_SPACING :: jsstring where
  "MSG_SPACING = [0xB744, 0xC5B4, 0xC4F0, 0xAE30, 0xB97C, 0x0020, 0xC815, 0xD655, 0xD788,
     0x0020, 0xC785, 0xB825, 0xD574, 0xC8FC, 0xC138, 0xC694, 0x002E, 0x0020, 0x0028, 0xC608,
     0x003A, 0x0020, 0xACBD, 0xAE30, 0xB3C4, 0x0020, 0xC131, 0xB0A8, 0xC2DC, 0x0020, 0xC218,
     0xC815, 0xAD6C, 0x0029]"

definition MSG_BOTH_LEVELS :: jsstring where
  "MSG_BOTH_LEVELS = [0xC2DC, 0x002F, 0xB3C4, 0xC640, 0x0020, 0xC2DC, 0x002F, 0xAD70, 0x002F,
     0xAD6C, 0xB97C, 0x0020, 0xBAA8, 0xB450, 0x0020, 0xC785, 0xB825, 0xD574, 0xC8FC, 0xC138,
     0xC694, 0x002E, 0x0020, 0x0028, 0xC608, 0x003A, 0x0020, 0xC11C, 0xC6B8, 0xC2DC, 0x0020,
     0xC1A1, 0xD30C, 0xAD6C, 0x0029]"

definition MSG_DISTRICT :: jsstring where
  "MSG_DISTRICT = [0xAD6C, 0x0020, 0xB2E8, 0xC704, 0xAE4C, 0xC9C0, 0x0020, 0xC0C1, 0xC138,
     0xD558, 0xAC8C, 0x0020, 0xC785, 0xB825, 0xD574, 0xC8FC, 0xC138, 0xC694, 0x002E, 0x0020,
     0x0028, 0xC608, 0x003A, 0x0020, 0xACBD, 0xAE30, 0xB3C4, 0x0020, 0xC131, 0xB0A8, 0xC2DC,
     0x0020, 0xBD84, 0xB2F9, 0xAD6C, 0x0029]"

text \<open>The outcome of a validation: \<open>Invalid m\<close> is \<open>setErrorMsg(m); return false\<close>,
  \<open>Valid\<close> is \<open>return true\<close> (no message is set on that path).\<close>

datatype validation = Invalid jsstring | Valid

text \<open>The loop \<open>for (const part of parts)\<close>: \<open>True\<close> when it returns early, at the
  first part that the pattern matches.\<close>

fun typo_in_parts :: "jsstring list \<Rightarrow> bool" where
  "typo_in_parts [] = False"
| "typo_in_parts (part # rest) = (if rx_test typoRegex part then True else typo_in_parts rest)"

definition validateSearchInput :: "jsstring \<Rightarrow> validation" where
  "validateSearchInput text =
     (let trimmed = trim text in
      if length trimmed = 0 then Invalid MSG_REQUIRED
      else if \<not> str_includes trimmed [SPACE] then Invalid MSG_SPACING
      else
        let parts = split_ws trimmed in
        if typo_in_parts parts then Invalid MSG_SPACING
        else if length parts < 2 then Invalid MSG_BOTH_LEVELS
        else if length parts = 2 \<and> endsWith (parts ! 1) [SI] then Invalid MSG_DISTRICT
        else Valid)"

text \<open>\<open>handleSubmit\<close>: the argument of the call of \<open>onSearch\<close>, if the call is made.\<close>

definition handleSubmit :: "jsstring \<Rightarrow> jsstring option" where
  "handleSubmit input = (if validateSearchInput input = Valid then Some (trim input) else None)"

section \<open>Benefits\<close>

datatype BenefitSource = GOV_NATIONAL | GOV_LOCAL | PRIVATE

datatype CategoryType = ALL_CAT | GOV | FREE | DISCOUNT | PACKAGE | LIFESTYLE | SUBSCRIPTION | FINANCE

datatype UpdateType = NEW | UPDATE

text \<open>The interface \<open>Benefit\<close>; an optional field is an \<open>option\<close>, \<open>None\<close> when it is
  \<open>undefined\<close>. The counters are whole numbers.\<close>

record Benefit =
  id_f :: jsstring
  title :: jsstring
  description :: jsstring
  source :: BenefitSource
  tags :: "jsstring list"
  category :: CategoryType
  regionTarget :: "jsstring option"
  ctaLink :: jsstring
  isRecommended :: "bool option"
  lastUpdated :: "jsstring option"
  updateType :: "UpdateType option"
  likeCount :: "int option"
  envyCount :: "int option"

section \<open>The recency classifier\<close>

text \<open>
  \<open>isRecentUpdate\<close> calls three things of the host language whose results depend on the
  number grammar, on double arithmetic and on the local time zone. They are parameters of
  the model, over a type \<open>'n\<close> of numbers:
  \<^item> \<open>Number_of s\<close> is \<open>Number(s)\<close>;
  \<^item> \<open>minus_one x\<close> is \<open>x - 1\<close>;
  \<^item> \<open>Date_getTime y m d\<close> is \<open>new Date(y, m, d).getTime()\<close>: \<open>None\<close> when the date is
    invalid (the time value is NaN), otherwise the time value, a whole number of
    milliseconds.
  The current moment \<open>new Date().getTime()\<close> is the parameter \<open>now\<close>; it is always a
  valid time value. Time values are whole numbers below \<open>2^53\<close> in size, so the sign of
  their difference and its order against thirty days are those of the exact difference,
  and the quotient by the number of milliseconds of a day is compared as a real number.
  None of the calls in the \<open>try\<close> block throws, so the \<open>catch\<close> branch has no
  counterpart.
\<close>

record 'n host =
  Number_of :: "jsstring \<Rightarrow> 'n"
  minus_one :: "'n \<Rightarrow> 'n"
  Date_getTime :: "'n \<Rightarrow> 'n \<Rightarrow> 'n \<Rightarrow> int option"

definition DOT :: jschar where
  "DOT = 0x002E"

definition isRecentUpdate :: "'n host \<Rightarrow> int \<Rightarrow> jsstring option \<Rightarrow> bool" where
  "isRecentUpdate h now dateString =
     (case dateString of
        None \<Rightarrow> False
      | Some ds \<Rightarrow>
          if ds = [] then False
          else
            let parts = split_chr DOT ds in
            if length parts \<noteq> 3 then False
            else
              (case Date_getTime h (Number_of h (parts ! 0))
                      (minus_one h (Number_of h (parts ! 1))) (Number_of h (parts ! 2)) of
                 None \<Rightarrow> False
               | Some t \<Rightarrow>
                   let diffTime = now - t;
                       diffDays = real_of_int diffTime / (1000 * 3600 * 24)
                   in diffDays \<ge> 0 \<and> diffDays \<le> 30))"

section \<open>The badge aggregator\<close>

record badge =
  hasNew :: bool
  hasUpdate :: bool

text \<open>A benefit classifies as new, or as updated, at a moment: the tests of the source
  on \<open>isRecentUpdate(b.lastUpdated)\<close> and \<open>b.updateType\<close>.\<close>

definition is_new :: "'n host \<Rightarrow> int \<Rightarrow> Benefit \<Rightarrow> bool" where
  "is_new h now b \<longleftrightarrow> isRecentUpdate h now (lastUpdated b) \<and> updateType b = Some NEW"

definition is_updated :: "'n host \<Rightarrow> int \<Rightarrow> Benefit \<Rightarrow> bool" where
  "is_updated h now b \<longleftrightarrow> isRecentUpdate h now (lastUpdated b) \<and> updateType b = Some UPDATE"

type_synonym badges = "CategoryType \<rightharpoonup> badge"

datatype js_error = TypeError

text \<open>\<open>badges[k].hasNew = true\<close> and \<open>badges[k].hasUpdate = true\<close>: a write to a
  property of \<open>undefined\<close> throws.\<close>

definition set_hasNew :: "CategoryType \<Rightarrow> badges \<Rightarrow> js_error + badges" where
  "set_hasNew k m = (case m k of None \<Rightarrow> Inl TypeError | Some r \<Rightarrow> Inr (m(k \<mapsto> r\<lparr>hasNew := True\<rparr>)))"

definition set_hasUpdate :: "CategoryType \<Rightarrow> badges \<Rightarrow> js_error + badges" where
  "set_hasUpdate k m =
     (case m k of None \<Rightarrow> Inl TypeError | Some r \<Rightarrow> Inr (m(k \<mapsto> r\<lparr>hasUpdate := True\<rparr>)))"

text \<open>The body of \<open>benefits.forEach(b => ...)\<close> in \<open>computeCategoryBadges\<close>; \<open>now\<close> is
  the moment that the call of \<open>isRecentUpdate\<close> in this run of the body reads from the
  clock.\<close>

definition badge_step :: "'n host \<Rightarrow> int \<Rightarrow> Benefit \<Rightarrow> badges \<Rightarrow> js_error + badges" where
  "badge_step h now b badges0 =
     (let cat = category b;
          badges1 = (if badges0 cat = None
                     then badges0(cat \<mapsto> \<lparr>hasNew = False, hasUpdate = False\<rparr>) else badges0);
          badges2 = (if badges1 ALL_CAT = None
                     then badges1(ALL_CAT \<mapsto> \<lparr>hasNew = False, hasUpdate = False\<rparr>) else badges1);
          isRecent = isRecentUpdate h now (lastUpdated b)
      in if isRecent then
           (if updateType b = Some NEW then
              (case set_hasNew cat badges2 of
                 Inl e \<Rightarrow> Inl e | Inr badges3 \<Rightarrow> set_hasNew ALL_CAT badges3)
            else if updateType b = Some UPDATE then
              (case set_hasUpdate cat badges2 of
                 Inl e \<Rightarrow> Inl e | Inr badges3 \<Rightarrow> set_hasUpdate ALL_CAT badges3)
            else Inr badges2)
         else Inr badges2)"

text \<open>\<open>forEach\<close>: the callback runs on each element in turn, with the index of the
  element; an exception ends the loop. \<open>i\<close> is the index of the head of the list.\<close>

fun forEach :: "(nat \<Rightarrow> 'a \<Rightarrow> 's \<Rightarrow> js_error + 's) \<Rightarrow> nat \<Rightarrow> 'a list \<Rightarrow> 's \<Rightarrow> js_error + 's" where
  "forEach f i [] s = Inr s"
| "forEach f i (x # xs) s =
     (case f i x s of Inl e \<Rightarrow> Inl e | Inr s' \<Rightarrow> forEach f (Suc i) xs s')"

text \<open>
  \<open>computeCategoryBadges\<close>. The clock is read anew for every benefit, inside
  \<open>isRecentUpdate\<close>: \<open>clock i\<close> is the moment that \<open>new Date()\<close> returns while the
  callback runs on the benefit of index \<open>i\<close>. Nothing is assumed of the clock.
\<close>

definition computeCategoryBadges ::
  "'n host \<Rightarrow> (nat \<Rightarrow> int) \<Rightarrow> Benefit list \<Rightarrow> js_error + badges" where
  "computeCategoryBadges h clock benefits =
     forEach (\<lambda>i b. badge_step h (clock i) b) 0 benefits Map.empty"

section \<open>The filter and the sort of the local-benefits page\<close>

text \<open>The first entry of \<open>SIDO_LIST\<close>, the value of \<open>selectedSido\<close> that selects every
  province (U+C804 U+CCB4).\<close>

definition SIDO_ALL :: jsstring where
  "SIDO_ALL = [0xC804, 0xCCB4]"

text \<open>\<open>b.regionTarget?.includes(q)\<close> is \<open>undefined\<close>, which is falsy, when the field is
  absent.\<close>

definition region_includes :: "Benefit \<Rightarrow> jsstring \<Rightarrow> bool" where
  "region_includes b q = (case regionTarget b of None \<Rightarrow> False | Some r \<Rightarrow> str_includes r q)"

text \<open>The callback of \<open>benefits.filter\<close>.\<close>

definition filter_callback :: "jsstring \<Rightarrow> jsstring \<Rightarrow> Benefit \<Rightarrow> bool" where
  "filter_callback selectedSido districtInput b =
     (if selectedSido \<noteq> SIDO_ALL \<and> \<not> region_includes b selectedSido then False
      else if length (trim districtInput) > 0 then
        (let query = trim districtInput;
             inTitle = str_includes (title b) query;
             inDesc = str_includes (description b) query;
             inRegion = region_includes b query
         in if \<not> inTitle \<and> \<not> inDesc \<and> \<not> inRegion then False else True)
      else True)"

definition filteredBenefits :: "Benefit list \<Rightarrow> jsstring \<Rightarrow> jsstring \<Rightarrow> Benefit list" where
  "filteredBenefits benefits selectedSido districtInput =
     filter (filter_callback selectedSido districtInput) benefits"

text \<open>
  \<open>Array.prototype.sort\<close> with a comparison function sorts the array in place and is
  stable. The contents it leaves are those of a stable insertion sort: an element is put
  before the first later element that the comparison does not place ahead of it.
\<close>

fun insert_by :: "('a \<Rightarrow> 'a \<Rightarrow> int) \<Rightarrow> 'a \<Rightarrow> 'a list \<Rightarrow> 'a list" where
  "insert_by cmp x [] = [x]"
| "insert_by cmp x (y # ys) = (if cmp x y > 0 then y # insert_by cmp x ys else x # y # ys)"

definition array_sort :: "('a \<Rightarrow> 'a \<Rightarrow> int) \<Rightarrow> 'a list \<Rightarrow> 'a list" where
  "array_sort cmp xs = foldr (insert_by cmp) xs []"

text \<open>\<open>x.envyCount || 0\<close>: zero for an absent counter (and for a counter that is zero).\<close>

definition envy_or_0 :: "Benefit \<Rightarrow> int" where
  "envy_or_0 x = (case envyCount x of None \<Rightarrow> 0 | Some n \<Rightarrow> if n = 0 then 0 else n)"

text \<open>The comparison function \<open>(a, b) => (b.envyCount || 0) - (a.envyCount || 0)\<close>.\<close>

definition envy_cmp :: "Benefit \<Rightarrow> Benefit \<Rightarrow> int" where
  "envy_cmp a b = envy_or_0 b - envy_or_0 a"

text \<open>
  Arrays are objects with identity, and \<open>sort\<close> writes into the array it is called on.
  The store lists the arrays that exist; a reference is a position in the store.
  \<open>[...a]\<close> allocates a new array with the elements of \<open>a\<close>.
\<close>

type_synonym ref = nat
type_synonym store = "Benefit list list"

definition spread :: "ref \<Rightarrow> store \<Rightarrow> ref \<times> store" where
  "spread a st = (length st, st @ [st ! a])"

definition sort_in_place :: "(Benefit \<Rightarrow> Benefit \<Rightarrow> int) \<Rightarrow> ref \<Rightarrow> store \<Rightarrow> ref \<times> store" where
  "sort_in_place cmp a st = (a, st[a := array_sort cmp (st ! a)])"

datatype Tab = Tab_ALL | Tab_ENVY

text \<open>\<open>displayBenefits\<close>: the reference it is bound to, and the store afterwards.\<close>

definition displayBenefits :: "Tab \<Rightarrow> ref \<Rightarrow> store \<Rightarrow> ref \<times> store" where
  "displayBenefits tab filtered st =
     (if tab = Tab_ENVY then
        (let (copy, st1) = spread filtered st in sort_in_place envy_cmp copy st1)
      else (filtered, st))"

section \<open>The properties in the words of the specification\<close>

text \<open>The concatenation pattern: somewhere the token ends with one or more Hangul
  syllables, then si or do, then one or more Hangul syllables, then si, gun or gu.\<close>

definition concat_pattern :: "jsstring \<Rightarrow> bool" where
  "concat_pattern tok \<longleftrightarrow>
     (\<exists>pre a sd mid e. tok = pre @ a @ [sd] @ mid @ [e]
        \<and> a \<noteq> [] \<and> list_all hangul a \<and> (sd = SI \<or> sd = DO)
        \<and> mid \<noteq> [] \<and> list_all hangul mid \<and> (e = SI \<or> e = GUN \<or> e = GU))"

text \<open>A string without white space, with some white space, with a space (U+0020); a
  token that ends with the syllable si.\<close>

definition no_whitespace :: "jsstring \<Rightarrow> bool" where
  "no_whitespace s \<longleftrightarrow> list_all (\<lambda>c. \<not> is_ws c) s"

definition has_whitespace :: "jsstring \<Rightarrow> bool" where
  "has_whitespace s \<longleftrightarrow> list_ex is_ws s"

definition has_space :: "jsstring \<Rightarrow> bool" where
  "has_space s \<longleftrightarrow> SPACE \<in> set s"

definition ends_in_si :: "jsstring \<Rightarrow> bool" where
  "ends_in_si tok \<longleftrightarrow> tok \<noteq> [] \<and> last tok = SI"

text \<open>
  The rules of the address validator in their order, the first failure winning. The test
  of the second rule ("the trimmed string has a separator") is the parameter
  \<open>separated\<close>.
\<close>

definition rule_cascade :: "(jsstring \<Rightarrow> bool) \<Rightarrow> jsstring \<Rightarrow> validation" where
  "rule_cascade separated text =
     (if trim text = [] then Invalid MSG_REQUIRED
      else if \<not> separated (trim text) then Invalid MSG_SPACING
      else if list_ex concat_pattern (split_ws (trim text)) then Invalid MSG_SPACING
      else if length (split_ws (trim text)) < 2 then Invalid MSG_BOTH_LEVELS
      else if (case split_ws (trim text) of [t1, t2] \<Rightarrow> ends_in_si t2 | _ \<Rightarrow> False)
        then Invalid MSG_DISTRICT
      else Valid)"

text \<open>A date string of the shape N.N.N: three runs of decimal digits, none empty,
  separated by two dots.\<close>

definition is_digit :: "jschar \<Rightarrow> bool" where
  "is_digit c \<longleftrightarrow> 0x0030 \<le> c \<and> c \<le> 0x0039"


text \<open>The two filter stages: the province stage when a province is selected, the
  free-text stage when the trimmed query is not empty. \<open>sublist\<close> is "occurs as a
  contiguous part of".\<close>

definition passes_filters :: "jsstring \<Rightarrow> jsstring \<Rightarrow> Benefit \<Rightarrow> bool" where
  "passes_filters sido q b \<longleftrightarrow>
     (sido \<noteq> SIDO_ALL \<longrightarrow> (\<exists>r. regionTarget b = Some r \<and> sublist sido r))
     \<and> (trim q \<noteq> [] \<longrightarrow>
          sublist (trim q) (title b) \<or> sublist (trim q) (description b)
          \<or> (\<exists>r. regionTarget b = Some r \<and> sublist (trim q) r))"

section \<open>Auxiliary definitions for the proofs\<close>

text \<open>The last two parts of \<open>typoRegex\<close>, named for the proofs.\<close>

definition rx_tail :: rx where
  "rx_tail = Seq (Alt (Cls (\<lambda>c. c = SI)) (Alt (Cls (\<lambda>c. c = GUN)) (Cls (\<lambda>c. c = GU)))) Eoi"

text \<open>The flags of a category in a badge mapping, \<open>False\<close> where the category has no
  entry; and the mapping after one benefit, and after the benefits of a list whose head
  has index \<open>i\<close>, written in closed form.\<close>

definition new_at :: "badges \<Rightarrow> CategoryType \<Rightarrow> bool" where
  "new_at m k = (case m k of None \<Rightarrow> False | Some r \<Rightarrow> hasNew r)"

definition update_at :: "badges \<Rightarrow> CategoryType \<Rightarrow> bool" where
  "update_at m k = (case m k of None \<Rightarrow> False | Some r \<Rightarrow> hasUpdate r)"

definition step_map :: "'n host \<Rightarrow> int \<Rightarrow> Benefit \<Rightarrow> badges \<Rightarrow> badges" where
  "step_map h now b m =
     (\<lambda>k. if k = category b \<or> k = ALL_CAT
               then Some \<lparr>hasNew = new_at m k \<or> is_new h now b,
                          hasUpdate = update_at m k \<or> is_updated h now b\<rparr>
               else m k)"

definition pass_map :: "'n host \<Rightarrow> (nat \<Rightarrow> int) \<Rightarrow> nat \<Rightarrow> Benefit list \<Rightarrow> badges \<Rightarrow> badges" where
  "pass_map h clock i bs m =
     (\<lambda>k. if bs \<noteq> [] \<and> (k = ALL_CAT \<or> k \<in> category ` set bs)
          then Some \<lparr>hasNew = new_at m k
                        \<or> (\<exists>j<length bs. is_new h (clock (i + j)) (bs ! j)
                              \<and> (k = ALL_CAT \<or> k = category (bs ! j))),
                     hasUpdate = update_at m k
                        \<or> (\<exists>j<length bs. is_updated h (clock (i + j)) (bs ! j)
                              \<and> (k = ALL_CAT \<or> k = category (bs ! j)))\<rparr>
          else m k)"

section \<open>Sample data\<close>

text \<open>Code units of sample addresses: Gyeonggi-do, Seongnam-si, Bundang-gu, and two
  tokens with two levels run together.\<close>

definition GYEONGGI_DO :: jsstring where "GYEONGGI_DO = [0xACBD, 0xAE30, 0xB3C4]"
definition SEONGNAM_SI :: jsstring where "SEONGNAM_SI = [0xC131, 0xB0A8, 0xC2DC]"
definition BUNDANG_GU :: jsstring where "BUNDANG_GU = [0xBD84, 0xB2F9, 0xAD6C]"
definition GOYANGSI_ILSANSI :: jsstring where
  "GOYANGSI_ILSANSI = [0xACE0, 0xC591, 0xC2DC, 0xC77C, 0xC0B0, 0xC2DC]"
definition SEONGNAMSI_BUNDANGGU :: jsstring where
  "SEONGNAMSI_BUNDANGGU = [0xC131, 0xB0A8, 0xC2DC, 0xBD84, 0xB2F9, 0xAD6C]"

definition IDEOGRAPHIC_SPACE :: jschar where "IDEOGRAPHIC_SPACE = 0x3000"

definition TAB_CHAR :: jschar where "TAB_CHAR = 0x0009"

text \<open>
  A host for running the model on examples, after the language standard, for whole
  numbers. A number is a whole number or NaN (\<open>None\<close>). \<open>Number\<close> trims the string and
  reads a run of decimal digits, the empty run as 0; every other string is outside this
  fragment of the number grammar and is NaN here. \<open>new Date(y, m, d)\<close> follows the
  standard's MakeFullYear, MakeDay, MakeDate, UTC and TimeClip, for a time zone at a fixed
  distance \<open>tza\<close> (in milliseconds) from UTC. A run of digits too long for a double is
  read exactly here; a date with such a part is out of range, hence invalid, either way.
  The theorems on the classifier and on the badges hold for every host; this one serves
  the examples.
\<close>

definition js_Number :: "jsstring \<Rightarrow> int option" where
  "js_Number s =
     (if list_all is_digit (trim s)
      then Some (fold (\<lambda>c n. 10 * n + (uint c - 48)) (trim s) 0) else None)"

definition MakeFullYear :: "int \<Rightarrow> int" where
  "MakeFullYear y = (if 0 \<le> y \<and> y \<le> 99 then 1900 + y else y)"

definition DayFromYear :: "int \<Rightarrow> int" where
  "DayFromYear y =
     365 * (y - 1970) + (y - 1969) div 4 - (y - 1901) div 100 + (y - 1601) div 400"

definition InLeapYear :: "int \<Rightarrow> bool" where
  "InLeapYear y \<longleftrightarrow> (y mod 4 = 0 \<and> y mod 100 \<noteq> 0) \<or> y mod 400 = 0"

definition DaysBeforeMonth :: "int \<Rightarrow> bool \<Rightarrow> int" where
  "DaysBeforeMonth mn leap =
     [0, 31, 59, 90, 120, 151, 181, 212, 243, 273, 304, 334] ! nat mn
       + (if leap \<and> 2 \<le> mn then 1 else 0)"

definition MakeDay :: "int \<Rightarrow> int \<Rightarrow> int \<Rightarrow> int" where
  "MakeDay year month date =
     (let ym = year + month div 12; mn = month mod 12
      in DayFromYear ym + DaysBeforeMonth mn (InLeapYear ym) + date - 1)"

definition TimeClip :: "int \<Rightarrow> int option" where
  "TimeClip t = (if \<bar>t\<bar> > 8640000000000000 then None else Some t)"

definition js_Date_getTime :: "int \<Rightarrow> int option \<Rightarrow> int option \<Rightarrow> int option \<Rightarrow> int option" where
  "js_Date_getTime tza y m d =
     (case (y, m, d) of
        (Some y', Some m', Some d') \<Rightarrow> TimeClip (MakeDay (MakeFullYear y') m' d' * 86400000 - tza)
      | _ \<Rightarrow> None)"

definition js_host :: "int \<Rightarrow> int option host" where
  "js_host tza =
     \<lparr>Number_of = js_Number, minus_one = map_option (\<lambda>x. x - 1),
      Date_getTime = js_Date_getTime tza\<rparr>"

text \<open>Korea Standard Time, nine hours ahead of UTC all year.\<close>

definition KST :: int where
  "KST = 9 * 3600000"

definition sample_host :: "int option host" where
  "sample_host = js_host KST"

text \<open>The strings \<open>2024.05.20\<close>, \<open>2024.05\<close> and \<open>2024.05.\<close> (with a dot at the end), the
  parts of the first, and two moments: the start of 10 June 2024 and of 10 May 2024 in
  Korea.\<close>

definition DATE_0520 :: jsstring where
  "DATE_0520 = [0x32, 0x30, 0x32, 0x34, 0x2E, 0x30, 0x35, 0x2E, 0x32, 0x30]"

definition DATE_SHORT :: jsstring where
  "DATE_SHORT = [0x32, 0x30, 0x32, 0x34, 0x2E, 0x30, 0x35]"

definition DATE_TRAILING_DOT :: jsstring where
  "DATE_TRAILING_DOT = [0x32, 0x30, 0x32, 0x34, 0x2E, 0x30, 0x35, 0x2E]"

definition sample_now :: int where
  "sample_now = 1717945200000"

definition MAY_10_2024 :: int where
  "MAY_10_2024 = 1715266800000"

definition Y2024 :: jsstring where "Y2024 = [0x32, 0x30, 0x32, 0x34]"
definition M05 :: jsstring where "M05 = [0x30, 0x35]"
definition D20 :: jsstring where "D20 = [0x32, 0x30]"

text \<open>Sample benefits: one with a given identifier and envy counter; one dated
  \<open>2024.05.20\<close> with a given category and update type; one local benefit of a region
  (Seoul, Busan); and a store holding one array of three benefits.\<close>

definition sample_benefit :: "jsstring \<Rightarrow> int option \<Rightarrow> Benefit" where
  "sample_benefit i e =
     \<lparr>id_f = i, title = [], description = [], source = PRIVATE, tags = [], category = FREE,
      regionTarget = None, ctaLink = [], isRecommended = None, lastUpdated = None,
      updateType = None, likeCount = None, envyCount = e\<rparr>"

definition sample_store :: store where
  "sample_store =
     [[sample_benefit [0x31] (Some 5), sample_benefit [0x32] (Some 9), sample_benefit [0x33] (Some 9)]]"

definition sample_dated :: "CategoryType \<Rightarrow> UpdateType option \<Rightarrow> Benefit" where
  "sample_dated c u =
     \<lparr>id_f = [], title = [], description = [], source = PRIVATE, tags = [], category = c,
      regionTarget = None, ctaLink = [], isRecommended = None, lastUpdated = Some DATE_0520,
      updateType = u, likeCount = None, envyCount = None\<rparr>"

definition SEOUL :: jsstring where "SEOUL = [0xC11C, 0xC6B8]"
definition BUSAN :: jsstring where "BUSAN = [0xBD80, 0xC0B0]"
definition SUPPORT_FUND :: jsstring where "SUPPORT_FUND = [0xC9C0, 0xC6D0, 0xAE08]"

definition sample_local :: "jsstring \<Rightarrow> Benefit" where
  "sample_local region =
     \<lparr>id_f = region, title = region @ [SPACE] @ SUPPORT_FUND, description = [], source = GOV_LOCAL,
      tags = [], category = GOV, regionTarget = Some region, ctaLink = [], isRecommended = None,
      lastUpdated = None, updateType = None, likeCount = None, envyCount = None\<rparr>"

section \<open>Properties of the string functions\<close>

lemma is_ws_SPACE: "is_ws SPACE"
  by (simp add: is_ws_def SPACE_def)

lemma str_includes_single: "str_includes s [c] \<longleftrightarrow> c \<in> set s"
  by (induction s) auto

lemma str_includes_sublist: "str_includes hay needle \<longleftrightarrow> sublist needle hay"
  by (induction hay) (simp_all add: sublist_Cons_right)

lemma endsWith_single: "endsWith s [c] \<longleftrightarrow> s \<noteq> [] \<and> last s = c"
proof (cases s rule: rev_cases)
  case Nil
  then show ?thesis by (simp add: endsWith_def)
next
  case (snoc ys y)
  then show ?thesis by (auto simp: endsWith_def)
qed

lemma split_ws_from_nonempty: "split_ws_from cur s \<noteq> []"
  by (induction cur s rule: split_ws_from.induct) auto

lemma split_ws_from_two:
  "list_ex is_ws s \<Longrightarrow> 2 \<le> length (split_ws_from cur s)"
proof (induction cur s rule: split_ws_from.induct)
  case (1 cur)
  then show ?case by simp
next
  case (2 cur c cs)
  show ?case
  proof (cases "is_ws c")
    case True
    have "split_ws_from [] (dropWhile is_ws cs) \<noteq> []"
      by (rule split_ws_from_nonempty)
    then have "1 \<le> length (split_ws_from [] (dropWhile is_ws cs))"
      by (cases "split_ws_from [] (dropWhile is_ws cs)") simp_all
    with True show ?thesis by simp
  next
    case False
    with 2 show ?thesis by simp
  qed
qed

lemma split_chr_from_nonempty: "split_chr_from sep cur s \<noteq> []"
  by (induction sep cur s rule: split_chr_from.induct) auto

section \<open>The concatenation pattern\<close>

text \<open>
  What \<open>rx_match\<close> returns for a repeated class, and what \<open>rx_test\<close> decides: the
  pattern matches at the start of some suffix. With these, \<open>typoRegex\<close> accepts exactly
  the tokens of the concatenation pattern.
\<close>

lemma set_cls_plus:
  "t \<in> set (cls_plus p s) \<longleftrightarrow> (\<exists>w. w \<noteq> [] \<and> s = w @ t \<and> list_all p w)"
proof (induction s)
  case Nil
  show ?case by simp
next
  case (Cons c cs)
  show ?case
  proof
    assume "t \<in> set (cls_plus p (c # cs))"
    then have pc: "p c" and "t = cs \<or> t \<in> set (cls_plus p cs)"
      by (auto split: if_splits)
    then consider "t = cs" | w where "w \<noteq> []" "cs = w @ t" "list_all p w"
      using Cons.IH by blast
    then show "\<exists>w. w \<noteq> [] \<and> c # cs = w @ t \<and> list_all p w"
    proof cases
      case 1
      with pc have "[c] \<noteq> [] \<and> c # cs = [c] @ t \<and> list_all p [c]" by simp
      then show ?thesis by blast
    next
      case 2
      with pc have "c # w \<noteq> [] \<and> c # cs = (c # w) @ t \<and> list_all p (c # w)" by simp
      then show ?thesis by blast
    qed
  next
    assume "\<exists>w. w \<noteq> [] \<and> c # cs = w @ t \<and> list_all p w"
    then obtain w where w: "w \<noteq> []" "c # cs = w @ t" "list_all p w" by blast
    then obtain w' where w': "w = c # w'" by (cases w) auto
    with w have pc: "p c" and cs: "cs = w' @ t" and all: "list_all p w'" by auto
    show "t \<in> set (cls_plus p (c # cs))"
    proof (cases "w' = []")
      case True
      with pc cs show ?thesis by simp
    next
      case False
      with cs all have "t \<in> set (cls_plus p cs)" using Cons.IH by blast
      with pc show ?thesis by simp
    qed
  qed
qed

lemma rx_match_Seq_nonempty:
  "rx_match (Seq a b) s \<noteq> [] \<longleftrightarrow> (\<exists>t\<in>set (rx_match a s). rx_match b t \<noteq> [])"
  by auto

lemma rx_test_iff:
  "rx_test r s \<longleftrightarrow> (\<exists>pre suf. s = pre @ suf \<and> rx_match r suf \<noteq> [])"
proof (induction s)
  case Nil
  show ?case by simp
next
  case (Cons c cs)
  show ?case
  proof
    assume "rx_test r (c # cs)"
    then consider "rx_match r (c # cs) \<noteq> []" | "rx_test r cs" by auto
    then show "\<exists>pre suf. c # cs = pre @ suf \<and> rx_match r suf \<noteq> []"
    proof cases
      case 1
      then have "c # cs = [] @ (c # cs) \<and> rx_match r (c # cs) \<noteq> []" by simp
      then show ?thesis by blast
    next
      case 2
      then obtain pre suf where "cs = pre @ suf" "rx_match r suf \<noteq> []"
        using Cons.IH by blast
      then have "c # cs = (c # pre) @ suf \<and> rx_match r suf \<noteq> []" by simp
      then show ?thesis by blast
    qed
  next
    assume "\<exists>pre suf. c # cs = pre @ suf \<and> rx_match r suf \<noteq> []"
    then obtain pre suf where ps: "c # cs = pre @ suf" "rx_match r suf \<noteq> []" by blast
    show "rx_test r (c # cs)"
    proof (cases pre)
      case Nil
      with ps have "rx_match r (c # cs) \<noteq> []" by (metis append_Nil)
      then show ?thesis by simp
    next
      case (Cons x pre')
      with ps have "cs = pre' @ suf" by simp
      with ps(2) have "rx_test r cs" using Cons.IH by blast
      then show ?thesis by simp
    qed
  qed
qed

lemma rx_tail_iff:
  "rx_match rx_tail t \<noteq> [] \<longleftrightarrow> (\<exists>e. t = [e] \<and> (e = SI \<or> e = GUN \<or> e = GU))"
  by (cases t) (auto simp: rx_tail_def)

lemma rx_mid_iff:
  "rx_match (Seq (ClsPlus hangul) rx_tail) t \<noteq> [] \<longleftrightarrow>
     (\<exists>mid e. t = mid @ [e] \<and> mid \<noteq> [] \<and> list_all hangul mid \<and> (e = SI \<or> e = GUN \<or> e = GU))"
  unfolding rx_match_Seq_nonempty [of "ClsPlus hangul"] rx_tail_iff
  by (auto simp: set_cls_plus)

lemma rx_sd_iff:
  "rx_match (Seq (Alt (Cls (\<lambda>c. c = SI)) (Cls (\<lambda>c. c = DO))) (Seq (ClsPlus hangul) rx_tail)) t \<noteq> [] \<longleftrightarrow>
     (\<exists>sd mid e. t = [sd] @ mid @ [e] \<and> (sd = SI \<or> sd = DO)
        \<and> mid \<noteq> [] \<and> list_all hangul mid \<and> (e = SI \<or> e = GUN \<or> e = GU))"
  unfolding rx_match_Seq_nonempty [of "Alt _ _"] rx_mid_iff
  by (cases t) auto

lemma typoRegex_match_iff:
  "rx_match typoRegex t \<noteq> [] \<longleftrightarrow>
     (\<exists>a sd mid e. t = a @ [sd] @ mid @ [e] \<and> a \<noteq> [] \<and> list_all hangul a \<and> (sd = SI \<or> sd = DO)
        \<and> mid \<noteq> [] \<and> list_all hangul mid \<and> (e = SI \<or> e = GUN \<or> e = GU))"
proof -
  let ?rest = "Seq (Alt (Cls (\<lambda>c. c = SI)) (Cls (\<lambda>c. c = DO))) (Seq (ClsPlus hangul) rx_tail)"
  have eq: "typoRegex = Seq (ClsPlus hangul) ?rest"
    by (simp add: typoRegex_def rx_tail_def)
  have "rx_match typoRegex t \<noteq> [] \<longleftrightarrow> (\<exists>u\<in>set (cls_plus hangul t). rx_match ?rest u \<noteq> [])"
    unfolding eq by (simp only: rx_match_Seq_nonempty rx_match.simps(2))
  also have "\<dots> \<longleftrightarrow> (\<exists>u a. a \<noteq> [] \<and> t = a @ u \<and> list_all hangul a \<and> rx_match ?rest u \<noteq> [])"
    unfolding Bex_def set_cls_plus by blast
  also have "\<dots> \<longleftrightarrow> (\<exists>a sd mid e. t = a @ [sd] @ mid @ [e] \<and> a \<noteq> [] \<and> list_all hangul a
        \<and> (sd = SI \<or> sd = DO)
        \<and> mid \<noteq> [] \<and> list_all hangul mid \<and> (e = SI \<or> e = GUN \<or> e = GU))"
    unfolding rx_sd_iff by blast
  finally show ?thesis .
qed

lemma typoRegex_test_iff: "rx_test typoRegex tok \<longleftrightarrow> concat_pattern tok"
  unfolding rx_test_iff typoRegex_match_iff concat_pattern_def by blast

lemma typo_in_parts_iff: "typo_in_parts ps \<longleftrightarrow> list_ex concat_pattern ps"
  by (induction ps) (simp_all add: typoRegex_test_iff)

section \<open>Properties of the address validator\<close>

lemma two_parts_iff:
  "length ps = 2 \<and> endsWith (ps ! 1) [SI] \<longleftrightarrow> (case ps of [t1, t2] \<Rightarrow> ends_in_si t2 | _ \<Rightarrow> False)"
proof (cases ps)
  case Nil
  then show ?thesis by simp
next
  case (Cons a as)
  note outer = this
  show ?thesis
  proof (cases as)
    case Nil
    with outer show ?thesis by simp
  next
    case (Cons b bs)
    with outer show ?thesis
      by (cases bs) (simp_all add: endsWith_single ends_in_si_def)
  qed
qed

lemma validateSearchInput_cascade:
  "validateSearchInput text = rule_cascade has_space text"
  unfolding validateSearchInput_def rule_cascade_def Let_def
  by (simp only: str_includes_single typo_in_parts_iff two_parts_iff has_space_def length_0_conv)

lemma msgs_distinct:
  "MSG_BOTH_LEVELS \<noteq> MSG_REQUIRED" "MSG_BOTH_LEVELS \<noteq> MSG_SPACING" "MSG_BOTH_LEVELS \<noteq> MSG_DISTRICT"
  "MSG_REQUIRED \<noteq> MSG_SPACING" "MSG_REQUIRED \<noteq> MSG_DISTRICT" "MSG_SPACING \<noteq> MSG_DISTRICT"
  by (simp_all add: MSG_BOTH_LEVELS_def MSG_REQUIRED_def MSG_SPACING_def MSG_DISTRICT_def)

lemma trim_no_whitespace: "no_whitespace s \<Longrightarrow> trim s = s"
proof -
  assume "no_whitespace s"
  then have all: "\<forall>c\<in>set s. \<not> is_ws c"
    by (simp add: no_whitespace_def list_all_iff)
  then have 1: "dropWhile is_ws s = s"
    by (cases s) simp_all
  from all have "\<forall>c\<in>set (rev s). \<not> is_ws c" by simp
  then have 2: "dropWhile is_ws (rev s) = rev s"
    by (cases "rev s") simp_all
  show ?thesis by (simp add: trim_def 1 2)
qed

lemmas sample_defs = GYEONGGI_DO_def SEONGNAM_SI_def BUNDANG_GU_def GOYANGSI_ILSANSI_def
  SEONGNAMSI_BUNDANGGU_def IDEOGRAPHIC_SPACE_def

lemmas sample_defs2 = sample_defs TAB_CHAR_def

lemmas validator_defs = validateSearchInput_def handleSubmit_def trim_def is_ws_def SPACE_def
  split_ws_def typoRegex_def hangul_def SI_def DO_def GUN_def GU_def endsWith_def Let_def

lemma rule_cascade_eval:
  "rule_cascade separated text =
     (if trim text = [] then Invalid MSG_REQUIRED
      else if \<not> separated (trim text) then Invalid MSG_SPACING
      else if typo_in_parts (split_ws (trim text)) then Invalid MSG_SPACING
      else if length (split_ws (trim text)) < 2 then Invalid MSG_BOTH_LEVELS
      else if (case split_ws (trim text) of [t1, t2] \<Rightarrow> ends_in_si t2 | _ \<Rightarrow> False)
        then Invalid MSG_DISTRICT
      else Valid)"
  by (simp only: rule_cascade_def typo_in_parts_iff)

lemmas pattern_eval = typoRegex_test_iff [symmetric] typoRegex_def hangul_def SI_def DO_def
  GUN_def GU_def

lemma cascade_two:
  assumes "has_space (trim text)" and "split_ws (trim text) = [t1, t2]" and "ends_in_si t2"
    and "\<not> concat_pattern t1" and "\<not> concat_pattern t2"
  shows "validateSearchInput text = Invalid MSG_DISTRICT"
proof -
  from assms(1) have "trim text \<noteq> []" by (auto simp: has_space_def)
  with assms show ?thesis
    by (simp add: validateSearchInput_cascade rule_cascade_def)
qed

lemma cascade_three:
  assumes "has_space (trim text)" and "split_ws (trim text) = [t1, t2, t3]"
    and "\<not> concat_pattern t1" and "\<not> concat_pattern t2" and "\<not> concat_pattern t3"
  shows "validateSearchInput text = Valid"
proof -
  from assms(1) have "trim text \<noteq> []" by (auto simp: has_space_def)
  with assms show ?thesis
    by (simp add: validateSearchInput_cascade rule_cascade_def)
qed

text \<open>
  Claim C1, amended. The validator applies its rules in order, the first failure winning:
  empty after trimming, "address required"; else no space character (U+0020) in the
  trimmed string, the spacing message; else some token of the concatenation pattern, the
  same spacing message; else fewer than two tokens, the both-levels message; else exactly
  two tokens with the second ending in si, the district message; else valid. A search is
  issued exactly when the input is valid, and with the trimmed string.
\<close>

theorem address_validator_rules:
  "validateSearchInput text = rule_cascade has_space text
   \<and> (handleSubmit text = Some q \<longleftrightarrow> validateSearchInput text = Valid \<and> q = trim text)"
  by (auto simp: validateSearchInput_cascade handleSubmit_def)

theorem address_validator_rules_witness:
  "rule_cascade has_space (GYEONGGI_DO @ [SPACE] @ SEONGNAM_SI) = Invalid MSG_DISTRICT
   \<and> handleSubmit (GYEONGGI_DO @ [SPACE] @ SEONGNAM_SI) \<noteq> Some (GYEONGGI_DO @ [SPACE] @ SEONGNAM_SI)
   \<and> rule_cascade has_space ([SPACE] @ GYEONGGI_DO @ [SPACE] @ SEONGNAM_SI @ [SPACE] @ BUNDANG_GU) = Valid
   \<and> handleSubmit ([SPACE] @ GYEONGGI_DO @ [SPACE] @ SEONGNAM_SI @ [SPACE] @ BUNDANG_GU)
       = Some (GYEONGGI_DO @ [SPACE] @ SEONGNAM_SI @ [SPACE] @ BUNDANG_GU)"
proof -
  let ?two = "GYEONGGI_DO @ [SPACE] @ SEONGNAM_SI"
  let ?three = "[SPACE] @ GYEONGGI_DO @ [SPACE] @ SEONGNAM_SI @ [SPACE] @ BUNDANG_GU"
  have two: "validateSearchInput ?two = Invalid MSG_DISTRICT"
    by (simp add: validator_defs sample_defs)
  have three: "validateSearchInput ?three = Valid"
    by (simp add: validator_defs sample_defs)
  have tr: "trim ?three = GYEONGGI_DO @ [SPACE] @ SEONGNAM_SI @ [SPACE] @ BUNDANG_GU"
    by (simp add: validator_defs sample_defs)
  note r2 = address_validator_rules [of ?two ?two]
  note r3 = address_validator_rules [of ?three "GYEONGGI_DO @ [SPACE] @ SEONGNAM_SI @ [SPACE] @ BUNDANG_GU"]
  have a: "rule_cascade has_space ?two = Invalid MSG_DISTRICT"
    using r2 two by metis
  have b: "handleSubmit ?two \<noteq> Some ?two"
    using r2 two by (metis validation.distinct(1))
  have c: "rule_cascade has_space ?three = Valid"
    using r3 three by metis
  have d: "handleSubmit ?three = Some (GYEONGGI_DO @ [SPACE] @ SEONGNAM_SI @ [SPACE] @ BUNDANG_GU)"
    using r3 three tr by metis
  from a b c d show ?thesis by blast
qed

text \<open>
  The second rule tests for a space, not for white space: an address whose levels are
  separated by ideographic spaces (U+3000) passes every rule as the claim words them, and
  the validator rejects it with the spacing message.
\<close>

theorem address_validator_rules_counterexample:
  "validateSearchInput
      (GYEONGGI_DO @ [IDEOGRAPHIC_SPACE] @ SEONGNAM_SI @ [IDEOGRAPHIC_SPACE] @ BUNDANG_GU)
     = Invalid MSG_SPACING
   \<and> rule_cascade has_whitespace
        (GYEONGGI_DO @ [IDEOGRAPHIC_SPACE] @ SEONGNAM_SI @ [IDEOGRAPHIC_SPACE] @ BUNDANG_GU)
     = Valid"
  by (simp add: rule_cascade_eval has_whitespace_def ends_in_si_def validator_defs sample_defs)

text \<open>
  Claim C6, amended. Every address that is not empty and has no white space is rejected
  with the spacing message.
\<close>

theorem no_whitespace_rejected:
  assumes "no_whitespace text" and "text \<noteq> []"
  shows "validateSearchInput text = Invalid MSG_SPACING"
proof -
  from assms(1) have tr: "trim text = text" by (rule trim_no_whitespace)
  from assms(1) have "SPACE \<notin> set text"
    using is_ws_SPACE by (auto simp: no_whitespace_def list_all_iff)
  with assms(2) tr show ?thesis
    by (simp add: validateSearchInput_def str_includes_single)
qed

theorem no_whitespace_rejected_witness:
  "no_whitespace SEONGNAMSI_BUNDANGGU \<and> SEONGNAMSI_BUNDANGGU \<noteq> []
   \<and> validateSearchInput SEONGNAMSI_BUNDANGGU = Invalid MSG_SPACING"
proof -
  have 1: "no_whitespace SEONGNAMSI_BUNDANGGU"
    by (simp add: no_whitespace_def is_ws_def sample_defs)
  have 2: "SEONGNAMSI_BUNDANGGU \<noteq> []"
    by (simp add: sample_defs)
  from 1 2 no_whitespace_rejected [OF 1 2] show ?thesis by simp
qed

text \<open>
  The empty address has no white space, and the first rule rejects it with the
  "address required" message.
\<close>

theorem no_whitespace_rejected_counterexample:
  "no_whitespace [] \<and> validateSearchInput [] = Invalid MSG_REQUIRED
   \<and> validateSearchInput [] \<noteq> Invalid MSG_SPACING"
  using msgs_distinct by (simp add: no_whitespace_def validateSearchInput_def trim_def)

text \<open>
  Claim C7, amended. An address whose trimmed form contains a space (U+0020) and
  consists of exactly two tokens, neither of the concatenation pattern, the second ending
  in si, is rejected with the district message; an address whose trimmed form contains a
  space and consists of three tokens, none of the concatenation pattern, is valid.
\<close>

theorem city_pair_needs_district:
  "(has_space (trim text) \<and> split_ws (trim text) = [t1, t2] \<and> ends_in_si t2
      \<and> \<not> concat_pattern t1 \<and> \<not> concat_pattern t2
      \<longrightarrow> validateSearchInput text = Invalid MSG_DISTRICT)
   \<and> (has_space (trim text') \<and> split_ws (trim text') = [t1, t2, t3]
      \<and> \<not> concat_pattern t1 \<and> \<not> concat_pattern t2 \<and> \<not> concat_pattern t3
      \<longrightarrow> validateSearchInput text' = Valid)"
  using cascade_two cascade_three by blast

theorem city_pair_needs_district_witness:
  "validateSearchInput (GYEONGGI_DO @ [SPACE] @ SEONGNAM_SI) = Invalid MSG_DISTRICT
   \<and> validateSearchInput (GYEONGGI_DO @ [SPACE] @ SEONGNAM_SI @ [SPACE] @ BUNDANG_GU) = Valid"
proof -
  let ?two = "GYEONGGI_DO @ [SPACE] @ SEONGNAM_SI"
  let ?three = "GYEONGGI_DO @ [SPACE] @ SEONGNAM_SI @ [SPACE] @ BUNDANG_GU"
  have h2: "has_space (trim ?two)" and h3: "has_space (trim ?three)"
    by (simp_all add: has_space_def trim_def is_ws_def SPACE_def sample_defs)
  have s2: "split_ws (trim ?two) = [GYEONGGI_DO, SEONGNAM_SI]"
    by (simp add: split_ws_def trim_def is_ws_def SPACE_def sample_defs)
  have s3: "split_ws (trim ?three) = [GYEONGGI_DO, SEONGNAM_SI, BUNDANG_GU]"
    by (simp add: split_ws_def trim_def is_ws_def SPACE_def sample_defs)
  have e: "ends_in_si SEONGNAM_SI"
    by (simp add: ends_in_si_def SI_def sample_defs)
  have p1: "\<not> concat_pattern GYEONGGI_DO"
    by (simp add: pattern_eval sample_defs)
  have p2: "\<not> concat_pattern SEONGNAM_SI"
    by (simp add: pattern_eval sample_defs)
  have p3: "\<not> concat_pattern BUNDANG_GU"
    by (simp add: pattern_eval sample_defs)
  from h2 h3 s2 s3 e p1 p2 p3
    city_pair_needs_district [of ?two GYEONGGI_DO SEONGNAM_SI ?three BUNDANG_GU]
  show ?thesis by blast
qed

text \<open>
  Two tokens with the second ending in si are rejected with the spacing message when
  a token runs two levels together or when the separator is a tab; so are three tokens
  in the same two cases. A space before the first token does not help: trimming removes
  it before the test for a space.
\<close>

theorem city_pair_needs_district_counterexample:
  "split_ws (trim (GYEONGGI_DO @ [SPACE] @ GOYANGSI_ILSANSI)) = [GYEONGGI_DO, GOYANGSI_ILSANSI]
   \<and> ends_in_si GOYANGSI_ILSANSI
   \<and> validateSearchInput (GYEONGGI_DO @ [SPACE] @ GOYANGSI_ILSANSI) = Invalid MSG_SPACING
   \<and> split_ws (trim (GYEONGGI_DO @ [TAB_CHAR] @ SEONGNAM_SI)) = [GYEONGGI_DO, SEONGNAM_SI]
   \<and> ends_in_si SEONGNAM_SI
   \<and> validateSearchInput (GYEONGGI_DO @ [TAB_CHAR] @ SEONGNAM_SI) = Invalid MSG_SPACING
   \<and> split_ws (trim (GYEONGGI_DO @ [SPACE] @ SEONGNAM_SI @ [SPACE] @ SEONGNAMSI_BUNDANGGU))
       = [GYEONGGI_DO, SEONGNAM_SI, SEONGNAMSI_BUNDANGGU]
   \<and> validateSearchInput (GYEONGGI_DO @ [SPACE] @ SEONGNAM_SI @ [SPACE] @ SEONGNAMSI_BUNDANGGU)
       = Invalid MSG_SPACING
   \<and> split_ws (trim (GYEONGGI_DO @ [TAB_CHAR] @ SEONGNAM_SI @ [TAB_CHAR] @ BUNDANG_GU))
       = [GYEONGGI_DO, SEONGNAM_SI, BUNDANG_GU]
   \<and> validateSearchInput (GYEONGGI_DO @ [TAB_CHAR] @ SEONGNAM_SI @ [TAB_CHAR] @ BUNDANG_GU)
       = Invalid MSG_SPACING
   \<and> has_space ([SPACE] @ GYEONGGI_DO @ [TAB_CHAR] @ SEONGNAM_SI)
   \<and> split_ws (trim ([SPACE] @ GYEONGGI_DO @ [TAB_CHAR] @ SEONGNAM_SI)) = [GYEONGGI_DO, SEONGNAM_SI]
   \<and> validateSearchInput ([SPACE] @ GYEONGGI_DO @ [TAB_CHAR] @ SEONGNAM_SI) = Invalid MSG_SPACING
   \<and> MSG_SPACING \<noteq> MSG_DISTRICT"
proof -
  have 1: "split_ws (trim (GYEONGGI_DO @ [SPACE] @ GOYANGSI_ILSANSI)) = [GYEONGGI_DO, GOYANGSI_ILSANSI]"
    by (simp add: split_ws_def trim_def is_ws_def SPACE_def sample_defs2)
  have 2: "ends_in_si GOYANGSI_ILSANSI" "ends_in_si SEONGNAM_SI"
    by (simp_all add: ends_in_si_def SI_def sample_defs2)
  have 3: "validateSearchInput (GYEONGGI_DO @ [SPACE] @ GOYANGSI_ILSANSI) = Invalid MSG_SPACING"
    by (simp add: validator_defs sample_defs2)
  have 4: "split_ws (trim (GYEONGGI_DO @ [TAB_CHAR] @ SEONGNAM_SI)) = [GYEONGGI_DO, SEONGNAM_SI]"
    by (simp add: split_ws_def trim_def is_ws_def SPACE_def sample_defs2)
  have 5: "validateSearchInput (GYEONGGI_DO @ [TAB_CHAR] @ SEONGNAM_SI) = Invalid MSG_SPACING"
    by (simp add: validator_defs sample_defs2)
  have 6: "split_ws (trim (GYEONGGI_DO @ [SPACE] @ SEONGNAM_SI @ [SPACE] @ SEONGNAMSI_BUNDANGGU))
       = [GYEONGGI_DO, SEONGNAM_SI, SEONGNAMSI_BUNDANGGU]"
    by (simp add: split_ws_def trim_def is_ws_def SPACE_def sample_defs2)
  have 7: "validateSearchInput (GYEONGGI_DO @ [SPACE] @ SEONGNAM_SI @ [SPACE] @ SEONGNAMSI_BUNDANGGU)
       = Invalid MSG_SPACING"
    by (simp add: validator_defs sample_defs2)
  have 8: "split_ws (trim (GYEONGGI_DO @ [TAB_CHAR] @ SEONGNAM_SI @ [TAB_CHAR] @ BUNDANG_GU))
       = [GYEONGGI_DO, SEONGNAM_SI, BUNDANG_GU]"
    by (simp add: split_ws_def trim_def is_ws_def SPACE_def sample_defs2)
  have 9: "validateSearchInput (GYEONGGI_DO @ [TAB_CHAR] @ SEONGNAM_SI @ [TAB_CHAR] @ BUNDANG_GU)
       = Invalid MSG_SPACING"
    by (simp add: validator_defs sample_defs2)
  have 10: "has_space ([SPACE] @ GYEONGGI_DO @ [TAB_CHAR] @ SEONGNAM_SI)"
    by (simp add: has_space_def)
  have 11: "split_ws (trim ([SPACE] @ GYEONGGI_DO @ [TAB_CHAR] @ SEONGNAM_SI))
      = [GYEONGGI_DO, SEONGNAM_SI]"
    by (simp add: split_ws_def trim_def is_ws_def SPACE_def sample_defs2)
  have 12: "validateSearchInput ([SPACE] @ GYEONGGI_DO @ [TAB_CHAR] @ SEONGNAM_SI)
      = Invalid MSG_SPACING"
    by (simp add: validator_defs sample_defs2)
  from 1 2 3 4 5 6 7 8 9 10 11 12 msgs_distinct(6) show ?thesis by blast
qed

text \<open>
  Claim C10. A string with at least one white-space character splits into at least two
  pieces, and the validator never returns the both-levels message.
\<close>

theorem both_levels_unreachable:
  "(has_whitespace (trim text) \<longrightarrow> 2 \<le> length (split_ws (trim text)))
   \<and> validateSearchInput text \<noteq> Invalid MSG_BOTH_LEVELS"
proof
  show "has_whitespace (trim text) \<longrightarrow> 2 \<le> length (split_ws (trim text))"
    by (simp add: has_whitespace_def split_ws_def split_ws_from_two)
next
  show "validateSearchInput text \<noteq> Invalid MSG_BOTH_LEVELS"
  proof (cases "SPACE \<in> set (trim text)")
    case True
    then have "list_ex is_ws (trim text)"
      using is_ws_SPACE by (auto simp: list_ex_iff)
    then have "2 \<le> length (split_ws (trim text))"
      by (simp add: split_ws_def split_ws_from_two)
    then show ?thesis
      using msgs_distinct
      by (auto simp: validateSearchInput_def Let_def)
  next
    case False
    then show ?thesis
      using msgs_distinct
      by (auto simp: validateSearchInput_def Let_def str_includes_single)
  qed
qed

theorem both_levels_unreachable_witness:
  "has_whitespace (trim (GYEONGGI_DO @ [TAB_CHAR] @ SEONGNAM_SI))
   \<and> 2 \<le> length (split_ws (trim (GYEONGGI_DO @ [TAB_CHAR] @ SEONGNAM_SI)))
   \<and> validateSearchInput (GYEONGGI_DO @ [TAB_CHAR] @ SEONGNAM_SI) \<noteq> Invalid MSG_BOTH_LEVELS"
proof -
  have "has_whitespace (trim (GYEONGGI_DO @ [TAB_CHAR] @ SEONGNAM_SI))"
    by (simp add: has_whitespace_def trim_def is_ws_def sample_defs2)
  with both_levels_unreachable [of "GYEONGGI_DO @ [TAB_CHAR] @ SEONGNAM_SI"]
  show ?thesis by blast
qed

section \<open>Properties of the recency classifier\<close>






lemmas sample_host_defs = sample_host_def js_host_def js_Number_def js_Date_getTime_def
  MakeFullYear_def DayFromYear_def InLeapYear_def DaysBeforeMonth_def MakeDay_def TimeClip_def
  KST_def is_digit_def trim_def is_ws_def sample_now_def MAY_10_2024_def
  DATE_0520_def DATE_SHORT_def DATE_TRAILING_DOT_def Y2024_def M05_def D20_def DOT_def
  split_chr_def Let_def

lemma sample_recent: "isRecentUpdate sample_host sample_now (Some DATE_0520)"
  by (simp add: isRecentUpdate_def Let_def sample_host_defs)




section \<open>Properties of the badge aggregator\<close>

lemma badge_step_result:
  "badge_step h now b m =
     Inr (\<lambda>k. if k = category b \<or> k = ALL_CAT
               then Some \<lparr>hasNew = new_at m k \<or> is_new h now b,
                          hasUpdate = update_at m k \<or> is_updated h now b\<rparr>
               else m k)"
  unfolding badge_step_def Let_def set_hasNew_def set_hasUpdate_def is_new_def is_updated_def
    new_at_def update_at_def
  by (auto simp: fun_eq_iff split: option.splits)

lemma new_at_step_map:
  "new_at (step_map h now b m) k \<longleftrightarrow> new_at m k \<or> (k = category b \<or> k = ALL_CAT) \<and> is_new h now b"
  by (simp add: step_map_def new_at_def)

lemma update_at_step_map:
  "update_at (step_map h now b m) k \<longleftrightarrow>
     update_at m k \<or> (k = category b \<or> k = ALL_CAT) \<and> is_updated h now b"
  by (simp add: step_map_def update_at_def)

lemma pass_map_Cons:
  "pass_map h clock (Suc i) bs (step_map h (clock i) b m) = pass_map h clock i (b # bs) m"
  unfolding pass_map_def fun_eq_iff
  apply (intro allI)
  apply (simp add: new_at_step_map update_at_step_map Ex_less_Suc2)
  apply (auto simp: step_map_def)
  done

lemma forEach_badge_step:
  "forEach (\<lambda>i b. badge_step h (clock i) b) i bs m = Inr (pass_map h clock i bs m)"
proof (induction bs arbitrary: i m)
  case Nil
  show ?case by (simp add: pass_map_def)
next
  case (Cons b bs)
  have "badge_step h (clock i) b m = Inr (step_map h (clock i) b m)"
    by (simp add: badge_step_result step_map_def)
  then show ?case
    by (simp add: Cons.IH pass_map_Cons)
qed

lemma forEach_append:
  "forEach f i (xs @ ys) s =
     (case forEach f i xs s of Inl e \<Rightarrow> Inl e | Inr s' \<Rightarrow> forEach f (i + length xs) ys s')"
  by (induction xs arbitrary: i s) (auto split: sum.splits)

lemma pass_map_keeps_flags:
  assumes "m k = Some r"
  shows "\<exists>r'. pass_map h clock i bs m k = Some r'
           \<and> (hasNew r \<longrightarrow> hasNew r') \<and> (hasUpdate r \<longrightarrow> hasUpdate r')"
  using assms by (simp add: pass_map_def new_at_def update_at_def)

lemma pass_map_from_empty:
  "pass_map h clock 0 bs Map.empty k =
     (if bs \<noteq> [] \<and> (k = ALL_CAT \<or> k \<in> category ` set bs)
      then Some \<lparr>hasNew = (\<exists>i<length bs. isRecentUpdate h (clock i) (lastUpdated (bs ! i))
                               \<and> updateType (bs ! i) = Some NEW
                               \<and> (k = ALL_CAT \<or> k = category (bs ! i))),
                  hasUpdate = (\<exists>i<length bs. isRecentUpdate h (clock i) (lastUpdated (bs ! i))
                               \<and> updateType (bs ! i) = Some UPDATE
                               \<and> (k = ALL_CAT \<or> k = category (bs ! i)))\<rparr>
      else None)"
  by (simp add: pass_map_def new_at_def update_at_def is_new_def is_updated_def)

lemma pass_map_flag_set:
  assumes "i < length bs"
    and "isRecentUpdate h (clock i) (lastUpdated (bs ! i))" and "updateType (bs ! i) = Some u"
  shows "\<exists>r. pass_map h clock 0 bs Map.empty (category (bs ! i)) = Some r
            \<and> (u = NEW \<longrightarrow> hasNew r) \<and> (u = UPDATE \<longrightarrow> hasUpdate r)"
    and "\<exists>r. pass_map h clock 0 bs Map.empty ALL_CAT = Some r
            \<and> (u = NEW \<longrightarrow> hasNew r) \<and> (u = UPDATE \<longrightarrow> hasUpdate r)"
proof -
  from assms(1) have ne: "bs \<noteq> []" by auto
  from assms(1) have mem: "category (bs ! i) \<in> category ` set bs" by simp
  let ?k = "category (bs ! i)"
  have new: "u = NEW \<Longrightarrow> \<exists>j<length bs. isRecentUpdate h (clock j) (lastUpdated (bs ! j))
      \<and> updateType (bs ! j) = Some NEW \<and> (k = ALL_CAT \<or> k = category (bs ! j))"
    if "k = ALL_CAT \<or> k = ?k" for k
    using assms that by blast
  have upd: "u = UPDATE \<Longrightarrow> \<exists>j<length bs. isRecentUpdate h (clock j) (lastUpdated (bs ! j))
      \<and> updateType (bs ! j) = Some UPDATE \<and> (k = ALL_CAT \<or> k = category (bs ! j))"
    if "k = ALL_CAT \<or> k = ?k" for k
    using assms that by blast
  show "\<exists>r. pass_map h clock 0 bs Map.empty ?k = Some r
            \<and> (u = NEW \<longrightarrow> hasNew r) \<and> (u = UPDATE \<longrightarrow> hasUpdate r)"
    using ne mem new [of ?k] upd [of ?k] by (simp add: pass_map_from_empty)
  show "\<exists>r. pass_map h clock 0 bs Map.empty ALL_CAT = Some r
            \<and> (u = NEW \<longrightarrow> hasNew r) \<and> (u = UPDATE \<longrightarrow> hasUpdate r)"
    using ne new [of ALL_CAT] upd [of ALL_CAT] by (simp add: pass_map_from_empty)
qed

lemma pass_map_flag_origin:
  assumes "pass_map h clock 0 bs Map.empty k = Some r"
  shows "hasNew r \<longleftrightarrow> (\<exists>i<length bs. isRecentUpdate h (clock i) (lastUpdated (bs ! i))
                                 \<and> updateType (bs ! i) = Some NEW
                                 \<and> (k = ALL_CAT \<or> k = category (bs ! i)))"
    and "hasUpdate r \<longleftrightarrow> (\<exists>i<length bs. isRecentUpdate h (clock i) (lastUpdated (bs ! i))
                                 \<and> updateType (bs ! i) = Some UPDATE
                                 \<and> (k = ALL_CAT \<or> k = category (bs ! i)))"
proof -
  from assms have c: "bs \<noteq> [] \<and> (k = ALL_CAT \<or> k \<in> category ` set bs)"
    by (simp add: pass_map_from_empty split: if_splits)
  let ?r = "\<lparr>hasNew = (\<exists>i<length bs. isRecentUpdate h (clock i) (lastUpdated (bs ! i))
                               \<and> updateType (bs ! i) = Some NEW
                               \<and> (k = ALL_CAT \<or> k = category (bs ! i))),
                  hasUpdate = (\<exists>i<length bs. isRecentUpdate h (clock i) (lastUpdated (bs ! i))
                               \<and> updateType (bs ! i) = Some UPDATE
                               \<and> (k = ALL_CAT \<or> k = category (bs ! i)))\<rparr>"
  from c have "pass_map h clock 0 bs Map.empty k = Some ?r"
    by (simp only: pass_map_from_empty simp_thms if_True)
  with assms have r: "r = ?r" by simp
  show "hasNew r \<longleftrightarrow> (\<exists>i<length bs. isRecentUpdate h (clock i) (lastUpdated (bs ! i))
                                 \<and> updateType (bs ! i) = Some NEW
                                 \<and> (k = ALL_CAT \<or> k = category (bs ! i)))"
    by (simp only: r badge.select_convs)
  show "hasUpdate r \<longleftrightarrow> (\<exists>i<length bs. isRecentUpdate h (clock i) (lastUpdated (bs ! i))
                                 \<and> updateType (bs ! i) = Some UPDATE
                                 \<and> (k = ALL_CAT \<or> k = category (bs ! i)))"
    by (simp only: r badge.select_convs)
qed

text \<open>
  Claim C3. The aggregation never fails. On the empty list the mapping is empty. For
  every benefit of the list that is recent, at the moment the pass reads the clock for
  it, with update type NEW, \<open>hasNew\<close> is set for its category and for the pseudo-category
  of all; likewise \<open>hasUpdate\<close> for UPDATE; and a flag of an entry is set only by such a
  benefit. A recent benefit without update type changes no entry and adds only entries
  with both flags unset. For one recent NEW benefit of category FREE the mapping has
  exactly the entries FREE and ALL, both with \<open>hasNew\<close> set and \<open>hasUpdate\<close> unset.
\<close>

theorem badge_aggregator_contract:
  "computeCategoryBadges h clock [] = Inr Map.empty
   \<and> (\<exists>m. computeCategoryBadges h clock bs = Inr m
        \<and> (\<forall>i<length bs. isRecentUpdate h (clock i) (lastUpdated (bs ! i))
                \<and> updateType (bs ! i) = Some NEW \<longrightarrow>
              (\<exists>r. m (category (bs ! i)) = Some r \<and> hasNew r) \<and> (\<exists>r. m ALL_CAT = Some r \<and> hasNew r))
        \<and> (\<forall>i<length bs. isRecentUpdate h (clock i) (lastUpdated (bs ! i))
                \<and> updateType (bs ! i) = Some UPDATE \<longrightarrow>
              (\<exists>r. m (category (bs ! i)) = Some r \<and> hasUpdate r)
              \<and> (\<exists>r. m ALL_CAT = Some r \<and> hasUpdate r))
        \<and> (\<forall>k r. m k = Some r \<longrightarrow>
              (hasNew r \<longleftrightarrow> (\<exists>i<length bs. isRecentUpdate h (clock i) (lastUpdated (bs ! i))
                                 \<and> updateType (bs ! i) = Some NEW
                                 \<and> (k = ALL_CAT \<or> k = category (bs ! i))))
            \<and> (hasUpdate r \<longleftrightarrow> (\<exists>i<length bs. isRecentUpdate h (clock i) (lastUpdated (bs ! i))
                                 \<and> updateType (bs ! i) = Some UPDATE
                                 \<and> (k = ALL_CAT \<or> k = category (bs ! i))))))
   \<and> (isRecentUpdate h now (lastUpdated c) \<and> updateType c = None \<longrightarrow>
        (\<exists>acc'. badge_step h now c acc = Inr acc'
           \<and> (\<forall>k r. acc k = Some r \<longrightarrow> acc' k = Some r)
           \<and> (\<forall>k. acc k = None \<longrightarrow> acc' k = None \<or> acc' k = Some \<lparr>hasNew = False, hasUpdate = False\<rparr>)))
   \<and> (isRecentUpdate h (clock 0) (lastUpdated d) \<and> updateType d = Some NEW \<and> category d = FREE \<longrightarrow>
        computeCategoryBadges h clock [d]
          = Inr [FREE \<mapsto> \<lparr>hasNew = True, hasUpdate = False\<rparr>,
                 ALL_CAT \<mapsto> \<lparr>hasNew = True, hasUpdate = False\<rparr>])"
proof (intro conjI)
  show "computeCategoryBadges h clock [] = Inr Map.empty"
    by (simp add: computeCategoryBadges_def)
next
  let ?m = "pass_map h clock 0 bs Map.empty"
  have 1: "computeCategoryBadges h clock bs = Inr ?m"
    by (simp add: computeCategoryBadges_def forEach_badge_step)
  have 2: "\<forall>i<length bs. isRecentUpdate h (clock i) (lastUpdated (bs ! i))
                \<and> updateType (bs ! i) = Some NEW \<longrightarrow>
              (\<exists>r. ?m (category (bs ! i)) = Some r \<and> hasNew r) \<and> (\<exists>r. ?m ALL_CAT = Some r \<and> hasNew r)"
  proof (intro allI impI)
    fix i
    assume i: "i < length bs"
      and a: "isRecentUpdate h (clock i) (lastUpdated (bs ! i)) \<and> updateType (bs ! i) = Some NEW"
    from pass_map_flag_set [OF i, of h clock NEW] a
    show "(\<exists>r. ?m (category (bs ! i)) = Some r \<and> hasNew r) \<and> (\<exists>r. ?m ALL_CAT = Some r \<and> hasNew r)"
      by blast
  qed
  have 3: "\<forall>i<length bs. isRecentUpdate h (clock i) (lastUpdated (bs ! i))
                \<and> updateType (bs ! i) = Some UPDATE \<longrightarrow>
              (\<exists>r. ?m (category (bs ! i)) = Some r \<and> hasUpdate r)
              \<and> (\<exists>r. ?m ALL_CAT = Some r \<and> hasUpdate r)"
  proof (intro allI impI)
    fix i
    assume i: "i < length bs"
      and a: "isRecentUpdate h (clock i) (lastUpdated (bs ! i)) \<and> updateType (bs ! i) = Some UPDATE"
    from pass_map_flag_set [OF i, of h clock UPDATE] a
    show "(\<exists>r. ?m (category (bs ! i)) = Some r \<and> hasUpdate r)
        \<and> (\<exists>r. ?m ALL_CAT = Some r \<and> hasUpdate r)"
      by blast
  qed
  have 4: "\<forall>k r. ?m k = Some r \<longrightarrow>
              (hasNew r \<longleftrightarrow> (\<exists>i<length bs. isRecentUpdate h (clock i) (lastUpdated (bs ! i))
                                 \<and> updateType (bs ! i) = Some NEW
                                 \<and> (k = ALL_CAT \<or> k = category (bs ! i))))
            \<and> (hasUpdate r \<longleftrightarrow> (\<exists>i<length bs. isRecentUpdate h (clock i) (lastUpdated (bs ! i))
                                 \<and> updateType (bs ! i) = Some UPDATE
                                 \<and> (k = ALL_CAT \<or> k = category (bs ! i))))"
  proof (intro allI impI conjI)
    fix k r
    assume m: "?m k = Some r"
    show "hasNew r \<longleftrightarrow> (\<exists>i<length bs. isRecentUpdate h (clock i) (lastUpdated (bs ! i))
                                 \<and> updateType (bs ! i) = Some NEW
                                 \<and> (k = ALL_CAT \<or> k = category (bs ! i)))"
      by (rule pass_map_flag_origin(1) [OF m])
    show "hasUpdate r \<longleftrightarrow> (\<exists>i<length bs. isRecentUpdate h (clock i) (lastUpdated (bs ! i))
                                 \<and> updateType (bs ! i) = Some UPDATE
                                 \<and> (k = ALL_CAT \<or> k = category (bs ! i)))"
      by (rule pass_map_flag_origin(2) [OF m])
  qed
  from 1 2 3 4 show "\<exists>m. computeCategoryBadges h clock bs = Inr m
        \<and> (\<forall>i<length bs. isRecentUpdate h (clock i) (lastUpdated (bs ! i))
                \<and> updateType (bs ! i) = Some NEW \<longrightarrow>
              (\<exists>r. m (category (bs ! i)) = Some r \<and> hasNew r) \<and> (\<exists>r. m ALL_CAT = Some r \<and> hasNew r))
        \<and> (\<forall>i<length bs. isRecentUpdate h (clock i) (lastUpdated (bs ! i))
                \<and> updateType (bs ! i) = Some UPDATE \<longrightarrow>
              (\<exists>r. m (category (bs ! i)) = Some r \<and> hasUpdate r)
              \<and> (\<exists>r. m ALL_CAT = Some r \<and> hasUpdate r))
        \<and> (\<forall>k r. m k = Some r \<longrightarrow>
              (hasNew r \<longleftrightarrow> (\<exists>i<length bs. isRecentUpdate h (clock i) (lastUpdated (bs ! i))
                                 \<and> updateType (bs ! i) = Some NEW
                                 \<and> (k = ALL_CAT \<or> k = category (bs ! i))))
            \<and> (hasUpdate r \<longleftrightarrow> (\<exists>i<length bs. isRecentUpdate h (clock i) (lastUpdated (bs ! i))
                                 \<and> updateType (bs ! i) = Some UPDATE
                                 \<and> (k = ALL_CAT \<or> k = category (bs ! i)))))"
    by (intro exI [of _ ?m] conjI)
next
  show "isRecentUpdate h now (lastUpdated c) \<and> updateType c = None \<longrightarrow>
        (\<exists>acc'. badge_step h now c acc = Inr acc'
           \<and> (\<forall>k r. acc k = Some r \<longrightarrow> acc' k = Some r)
           \<and> (\<forall>k. acc k = None \<longrightarrow> acc' k = None \<or> acc' k = Some \<lparr>hasNew = False, hasUpdate = False\<rparr>))"
    by (auto simp: badge_step_result is_new_def is_updated_def new_at_def update_at_def)
next
  show "isRecentUpdate h (clock 0) (lastUpdated d) \<and> updateType d = Some NEW \<and> category d = FREE \<longrightarrow>
        computeCategoryBadges h clock [d]
          = Inr [FREE \<mapsto> \<lparr>hasNew = True, hasUpdate = False\<rparr>,
                 ALL_CAT \<mapsto> \<lparr>hasNew = True, hasUpdate = False\<rparr>]"
    by (auto simp: computeCategoryBadges_def badge_step_result is_new_def is_updated_def
        new_at_def update_at_def fun_eq_iff)
qed

theorem badge_aggregator_contract_witness:
  "computeCategoryBadges sample_host (\<lambda>i. sample_now) [sample_dated FREE (Some NEW)]
     = Inr [FREE \<mapsto> \<lparr>hasNew = True, hasUpdate = False\<rparr>,
            ALL_CAT \<mapsto> \<lparr>hasNew = True, hasUpdate = False\<rparr>]
   \<and> (\<exists>m. computeCategoryBadges sample_host (\<lambda>i. sample_now)
             [sample_dated FREE (Some NEW), sample_dated DISCOUNT (Some UPDATE)] = Inr m
         \<and> (\<exists>r. m FREE = Some r \<and> hasNew r)
         \<and> (\<exists>r. m ALL_CAT = Some r \<and> hasNew r)
         \<and> (\<exists>r. m DISCOUNT = Some r \<and> hasUpdate r)
         \<and> (\<exists>r. m ALL_CAT = Some r \<and> hasUpdate r))
   \<and> (\<exists>acc'. badge_step sample_host sample_now (sample_dated FREE None) Map.empty = Inr acc'
         \<and> (acc' FREE = None \<or> acc' FREE = Some \<lparr>hasNew = False, hasUpdate = False\<rparr>))"
proof -
  let ?n = "sample_dated FREE (Some NEW)" and ?u = "sample_dated DISCOUNT (Some UPDATE)"
  let ?p = "sample_dated FREE None"
  let ?still = "\<lambda>i::nat. sample_now"
  let ?bs = "[?n, ?u]"
  note c = badge_aggregator_contract [of sample_host ?still ?bs sample_now ?p Map.empty ?n]
  note c2 = c [THEN conjunct2, THEN conjunct1]
  note c3 = c [THEN conjunct2, THEN conjunct2, THEN conjunct1]
  note c4 = c [THEN conjunct2, THEN conjunct2, THEN conjunct2]
  have n: "isRecentUpdate sample_host sample_now (lastUpdated ?n) \<and> updateType ?n = Some NEW
      \<and> category ?n = FREE"
    using sample_recent by (simp add: sample_dated_def)
  have n0: "isRecentUpdate sample_host sample_now (lastUpdated (?bs ! 0))
      \<and> updateType (?bs ! 0) = Some NEW"
    using sample_recent by (simp add: sample_dated_def)
  have u1: "isRecentUpdate sample_host sample_now (lastUpdated (?bs ! 1))
      \<and> updateType (?bs ! 1) = Some UPDATE"
    using sample_recent by (simp add: sample_dated_def)
  have cat0: "category (?bs ! 0) = FREE" and cat1: "category (?bs ! 1) = DISCOUNT"
    by (simp_all add: sample_dated_def)
  have len: "0 < length ?bs" "1 < length ?bs"
    by simp_all
  have p: "isRecentUpdate sample_host sample_now (lastUpdated ?p) \<and> updateType ?p = None"
    using sample_recent by (simp add: sample_dated_def)
  from c4 n have 1: "computeCategoryBadges sample_host ?still [?n]
     = Inr [FREE \<mapsto> \<lparr>hasNew = True, hasUpdate = False\<rparr>,
            ALL_CAT \<mapsto> \<lparr>hasNew = True, hasUpdate = False\<rparr>]"
    by (rule mp)
  from c2 have 2: "\<exists>m. computeCategoryBadges sample_host ?still ?bs = Inr m
         \<and> (\<exists>r. m FREE = Some r \<and> hasNew r)
         \<and> (\<exists>r. m ALL_CAT = Some r \<and> hasNew r)
         \<and> (\<exists>r. m DISCOUNT = Some r \<and> hasUpdate r)
         \<and> (\<exists>r. m ALL_CAT = Some r \<and> hasUpdate r)"
  proof (elim exE conjE)
    fix m
    assume m: "computeCategoryBadges sample_host ?still ?bs = Inr m"
      and mn: "\<forall>i<length ?bs. isRecentUpdate sample_host sample_now (lastUpdated (?bs ! i))
                \<and> updateType (?bs ! i) = Some NEW \<longrightarrow>
              (\<exists>r. m (category (?bs ! i)) = Some r \<and> hasNew r) \<and> (\<exists>r. m ALL_CAT = Some r \<and> hasNew r)"
      and mu: "\<forall>i<length ?bs. isRecentUpdate sample_host sample_now (lastUpdated (?bs ! i))
                \<and> updateType (?bs ! i) = Some UPDATE \<longrightarrow>
              (\<exists>r. m (category (?bs ! i)) = Some r \<and> hasUpdate r)
              \<and> (\<exists>r. m ALL_CAT = Some r \<and> hasUpdate r)"
    from mn [rule_format, OF len(1) n0]
    have a: "(\<exists>r. m FREE = Some r \<and> hasNew r) \<and> (\<exists>r. m ALL_CAT = Some r \<and> hasNew r)"
      by (simp only: cat0)
    from mu [rule_format, OF len(2) u1]
    have b: "(\<exists>r. m DISCOUNT = Some r \<and> hasUpdate r) \<and> (\<exists>r. m ALL_CAT = Some r \<and> hasUpdate r)"
      by (simp only: cat1)
    from m a b show ?thesis by (intro exI [of _ m] conjI) (elim conjE, assumption)+
  qed
  from c3 p have "\<exists>acc'. badge_step sample_host sample_now ?p Map.empty = Inr acc'
           \<and> (\<forall>k. acc' k = None \<or> acc' k = Some \<lparr>hasNew = False, hasUpdate = False\<rparr>)"
    by simp
  then obtain acc' where 4: "badge_step sample_host sample_now ?p Map.empty = Inr acc'"
    and 5: "\<forall>k. acc' k = None \<or> acc' k = Some \<lparr>hasNew = False, hasUpdate = False\<rparr>"
    by (elim exE conjE)
  from 5 have 6: "acc' FREE = None \<or> acc' FREE = Some \<lparr>hasNew = False, hasUpdate = False\<rparr>"
    by (rule spec)
  from 4 6 have 7: "\<exists>acc'. badge_step sample_host sample_now ?p Map.empty = Inr acc'
         \<and> (acc' FREE = None \<or> acc' FREE = Some \<lparr>hasNew = False, hasUpdate = False\<rparr>)"
    by (intro exI [of _ acc'] conjI)
  from 1 2 7 show ?thesis by (intro conjI)
qed

text \<open>
  A pass during which the clock moves: the first benefit is read on 10 June 2024, the
  second forty days later, when its date is no longer recent. Only the first sets a flag.
\<close>

lemma moving_clock_example:
  "computeCategoryBadges sample_host (\<lambda>i. sample_now + int i * (40 * 86400000))
       [sample_dated FREE (Some NEW), sample_dated DISCOUNT (Some UPDATE)]
     = Inr [FREE \<mapsto> \<lparr>hasNew = True, hasUpdate = False\<rparr>,
            ALL_CAT \<mapsto> \<lparr>hasNew = True, hasUpdate = False\<rparr>,
            DISCOUNT \<mapsto> \<lparr>hasNew = False, hasUpdate = False\<rparr>]"
proof -
  have first: "isRecentUpdate sample_host sample_now (Some DATE_0520)"
    by (rule sample_recent)
  have later: "\<not> isRecentUpdate sample_host (sample_now + 3456000000) (Some DATE_0520)"
    by (simp add: isRecentUpdate_def sample_host_defs)
  show ?thesis
    using first later
    by (simp add: computeCategoryBadges_def badge_step_result is_new_def is_updated_def
        new_at_def update_at_def sample_dated_def fun_eq_iff)
qed

text \<open>
  Claim C8. At every step of the pass, whatever moment the step reads from the clock, a
  flag that is set in the accumulated mapping is set in the mapping after the step;
  hence a flag that is set after a part of the list is set after any longer part.
\<close>

theorem badge_flags_only_rise:
  "(\<exists>acc'. badge_step h now b acc = Inr acc'
      \<and> (\<forall>k r. acc k = Some r \<longrightarrow>
            (\<exists>r'. acc' k = Some r' \<and> (hasNew r \<longrightarrow> hasNew r') \<and> (hasUpdate r \<longrightarrow> hasUpdate r'))))
   \<and> (\<exists>m m'. computeCategoryBadges h clock bs = Inr m
        \<and> computeCategoryBadges h clock (bs @ cs) = Inr m'
        \<and> (\<forall>k r. m k = Some r \<longrightarrow>
              (\<exists>r'. m' k = Some r' \<and> (hasNew r \<longrightarrow> hasNew r') \<and> (hasUpdate r \<longrightarrow> hasUpdate r'))))"
proof (intro conjI)
  have step: "badge_step h now b acc = Inr (pass_map h (\<lambda>i. now) 0 [b] acc)"
    using forEach_badge_step [of h "\<lambda>i. now" 0 "[b]" acc] by (simp split: sum.splits)
  show "\<exists>acc'. badge_step h now b acc = Inr acc'
      \<and> (\<forall>k r. acc k = Some r \<longrightarrow>
            (\<exists>r'. acc' k = Some r' \<and> (hasNew r \<longrightarrow> hasNew r') \<and> (hasUpdate r \<longrightarrow> hasUpdate r')))"
    using step pass_map_keeps_flags by blast
next
  let ?m = "pass_map h clock 0 bs Map.empty"
  have 1: "computeCategoryBadges h clock bs = Inr ?m"
    by (simp add: computeCategoryBadges_def forEach_badge_step)
  have 2: "computeCategoryBadges h clock (bs @ cs) = Inr (pass_map h clock (length bs) cs ?m)"
    by (simp only: computeCategoryBadges_def forEach_append) (simp add: forEach_badge_step)
  show "\<exists>m m'. computeCategoryBadges h clock bs = Inr m
        \<and> computeCategoryBadges h clock (bs @ cs) = Inr m'
        \<and> (\<forall>k r. m k = Some r \<longrightarrow>
              (\<exists>r'. m' k = Some r' \<and> (hasNew r \<longrightarrow> hasNew r') \<and> (hasUpdate r \<longrightarrow> hasUpdate r')))"
    using 1 2 pass_map_keeps_flags by blast
qed

theorem badge_flags_only_rise_witness:
  "(\<exists>acc'. badge_step sample_host sample_now (sample_dated FREE (Some UPDATE))
              [FREE \<mapsto> \<lparr>hasNew = True, hasUpdate = False\<rparr>] = Inr acc'
       \<and> (\<exists>r'. acc' FREE = Some r' \<and> hasNew r'))
   \<and> (\<exists>m m'. computeCategoryBadges sample_host (\<lambda>i. sample_now) [sample_dated FREE (Some NEW)] = Inr m
         \<and> computeCategoryBadges sample_host (\<lambda>i. sample_now)
              ([sample_dated FREE (Some NEW)] @ [sample_dated FREE (Some UPDATE)]) = Inr m'
         \<and> (\<exists>r. m FREE = Some r \<and> hasNew r) \<and> (\<exists>r'. m' FREE = Some r' \<and> hasNew r'))"
proof -
  let ?n = "sample_dated FREE (Some NEW)" and ?u = "sample_dated FREE (Some UPDATE)"
  let ?acc = "[FREE \<mapsto> \<lparr>hasNew = True, hasUpdate = False\<rparr>]"
  let ?still = "\<lambda>i::nat. sample_now"
  note c = badge_flags_only_rise [of sample_host sample_now ?u ?acc ?still "[?n]" "[?u]"]
  from c obtain acc' where a: "badge_step sample_host sample_now ?u ?acc = Inr acc'"
    and a': "\<forall>k r. ?acc k = Some r \<longrightarrow>
        (\<exists>r'. acc' k = Some r' \<and> (hasNew r \<longrightarrow> hasNew r') \<and> (hasUpdate r \<longrightarrow> hasUpdate r'))"
    by blast
  have "?acc FREE = Some \<lparr>hasNew = True, hasUpdate = False\<rparr>" by simp
  with a' have 1: "\<exists>r'. acc' FREE = Some r' \<and> hasNew r'"
    by (metis badge.select_convs(1))
  from c obtain m m' where m: "computeCategoryBadges sample_host ?still [?n] = Inr m"
    and m': "computeCategoryBadges sample_host ?still ([?n] @ [?u]) = Inr m'"
    and mm: "\<forall>k r. m k = Some r \<longrightarrow>
        (\<exists>r'. m' k = Some r' \<and> (hasNew r \<longrightarrow> hasNew r') \<and> (hasUpdate r \<longrightarrow> hasUpdate r'))"
    by blast
  have "computeCategoryBadges sample_host ?still [?n]
      = Inr [FREE \<mapsto> \<lparr>hasNew = True, hasUpdate = False\<rparr>,
            ALL_CAT \<mapsto> \<lparr>hasNew = True, hasUpdate = False\<rparr>]"
    using sample_recent
    by (simp add: computeCategoryBadges_def badge_step_result is_new_def is_updated_def
        new_at_def update_at_def sample_dated_def fun_eq_iff)
  with m have "m = [FREE \<mapsto> \<lparr>hasNew = True, hasUpdate = False\<rparr>,
            ALL_CAT \<mapsto> \<lparr>hasNew = True, hasUpdate = False\<rparr>]" by simp
  then have 2: "\<exists>r. m FREE = Some r \<and> hasNew r" by simp
  with mm have 3: "\<exists>r'. m' FREE = Some r' \<and> hasNew r'" by blast
  from a 1 m m' 2 3 show ?thesis by blast
qed

section \<open>Properties of the filter\<close>

lemma filter_callback_passes:
  "filter_callback sido q b \<longleftrightarrow> passes_filters sido q b"
  by (auto simp: filter_callback_def passes_filters_def region_includes_def Let_def
      str_includes_sublist split: option.splits)

text \<open>
  Claim C4. The filtered list holds exactly the benefits of the input that pass both
  stages: with a province selected, the region contains the province; with a query that
  is not empty after trimming, the trimmed query occurs in the title, in the description
  or in the region. A benefit without region fails a stage that looks at the region. The
  benefits that remain keep their order.
\<close>

theorem filter_engine_contract:
  "filteredBenefits bs sido q = filter (passes_filters sido q) bs
   \<and> (b \<in> set (filteredBenefits bs sido q) \<longleftrightarrow> b \<in> set bs \<and> passes_filters sido q b)
   \<and> subseq (filteredBenefits bs sido q) bs"
proof -
  have "filter_callback sido q = passes_filters sido q"
    by (rule ext) (rule filter_callback_passes)
  then have eq: "filteredBenefits bs sido q = filter (passes_filters sido q) bs"
    by (simp add: filteredBenefits_def)
  show ?thesis
    unfolding eq by simp
qed

theorem filter_engine_contract_witness:
  "filteredBenefits [sample_local SEOUL, sample_local BUSAN] SEOUL [] = [sample_local SEOUL]
   \<and> filteredBenefits [sample_local SEOUL, sample_local BUSAN] SIDO_ALL ([SPACE] @ BUSAN)
       = [sample_local BUSAN]
   \<and> passes_filters SEOUL [] (sample_local SEOUL)
   \<and> \<not> passes_filters SEOUL [] (sample_local BUSAN)"
proof -
  have 1: "filteredBenefits [sample_local SEOUL, sample_local BUSAN] SEOUL [] = [sample_local SEOUL]"
    by (simp add: filteredBenefits_def filter_callback_def region_includes_def sample_local_def
        SEOUL_def BUSAN_def SIDO_ALL_def trim_def)
  have 2: "filteredBenefits [sample_local SEOUL, sample_local BUSAN] SIDO_ALL ([SPACE] @ BUSAN)
       = [sample_local BUSAN]"
    by (simp add: filteredBenefits_def filter_callback_def region_includes_def sample_local_def
        SEOUL_def BUSAN_def SIDO_ALL_def trim_def is_ws_def SPACE_def SUPPORT_FUND_def Let_def)
  note c = filter_engine_contract [of "[sample_local SEOUL, sample_local BUSAN]" SEOUL "[]"]
  have 3: "passes_filters SEOUL [] (sample_local SEOUL)"
    using c [of "sample_local SEOUL"] 1 by simp
  have ne: "sample_local BUSAN \<noteq> sample_local SEOUL"
    by (simp add: sample_local_def SEOUL_def BUSAN_def)
  have 4: "\<not> passes_filters SEOUL [] (sample_local BUSAN)"
    using c [of "sample_local BUSAN"] 1 ne by simp
  from 1 2 3 4 show ?thesis by blast
qed

section \<open>Sorting by envy count\<close>

text \<open>On the comparison function of the page, the insertion sort is the library's stable
  sort by the negated counter.\<close>

lemma insert_by_envy_cmp:
  "insert_by envy_cmp x ys = insort_key (\<lambda>b. - envy_or_0 b) x ys"
  by (induction ys) (auto simp: envy_cmp_def)

lemma array_sort_envy_cmp:
  "array_sort envy_cmp xs = sort_key (\<lambda>b. - envy_or_0 b) xs"
  by (induction xs) (simp_all add: array_sort_def insert_by_envy_cmp)

lemma sorted_desc_array_sort:
  "sorted_wrt (\<lambda>a b. envy_or_0 a \<ge> envy_or_0 b) (array_sort envy_cmp xs)"
proof -
  have "sorted (map (\<lambda>b. - envy_or_0 b) (sort_key (\<lambda>b. - envy_or_0 b) xs))"
    by (rule sorted_sort_key)
  then show ?thesis
    by (simp add: array_sort_envy_cmp sorted_map)
qed

lemma mset_array_sort: "mset (array_sort envy_cmp xs) = mset xs"
  by (simp add: array_sort_envy_cmp)

lemma stable_array_sort:
  "filter (\<lambda>b. envy_or_0 b = k) (array_sort envy_cmp xs) = filter (\<lambda>b. envy_or_0 b = k) xs"
proof -
  have "filter (\<lambda>b. - envy_or_0 b = - k) (sort_key (\<lambda>b. - envy_or_0 b) xs)
      = filter (\<lambda>b. - envy_or_0 b = - k) xs"
    by (rule sort_key_stable)
  then show ?thesis by (simp add: array_sort_envy_cmp)
qed

lemma displayBenefits_envy:
  assumes "filtered < length st"
  shows "displayBenefits Tab_ENVY filtered st
       = (length st, st @ [array_sort envy_cmp (st ! filtered)])"
  using assms by (simp add: displayBenefits_def spread_def sort_in_place_def nth_append)

text \<open>
  Claim C5. In envy mode the displayed list is the filtered list ordered by descending
  \<open>envyCount\<close>, an absent counter counting as zero: it is sorted, it has the same
  elements, and for every counter value the benefits with that value keep their order
  (the sort is stable). Three benefits with counters 5, 9, 9 come out second, third,
  first.
\<close>

theorem envy_sort_descending_stable:
  assumes "filtered < length st"
    and "displayBenefits Tab_ENVY filtered st = (r, st')"
  shows "sorted_wrt (\<lambda>a b. envy_or_0 a \<ge> envy_or_0 b) (st' ! r)
     \<and> mset (st' ! r) = mset (st ! filtered)
     \<and> (\<forall>k. filter (\<lambda>b. envy_or_0 b = k) (st' ! r) = filter (\<lambda>b. envy_or_0 b = k) (st ! filtered))
     \<and> (\<forall>b. envyCount b = None \<longrightarrow> envy_or_0 b = 0)
     \<and> (\<forall>b n. envyCount b = Some n \<longrightarrow> envy_or_0 b = n)
     \<and> (\<forall>b1 b2 b3. envyCount b1 = Some 5 \<and> envyCount b2 = Some 9 \<and> envyCount b3 = Some 9
          \<and> st ! filtered = [b1, b2, b3] \<longrightarrow> st' ! r = [b2, b3, b1])"
proof -
  from assms have r: "r = length st" and st': "st' = st @ [array_sort envy_cmp (st ! filtered)]"
    by (simp_all add: displayBenefits_envy)
  have out: "st' ! r = array_sort envy_cmp (st ! filtered)"
    by (simp add: r st')
  have ex: "array_sort envy_cmp [b1, b2, b3] = [b2, b3, b1]"
    if "envyCount b1 = Some 5" "envyCount b2 = Some 9" "envyCount b3 = Some 9" for b1 b2 b3
    using that by (simp add: array_sort_def envy_cmp_def envy_or_0_def)
  have none: "\<forall>b. envyCount b = None \<longrightarrow> envy_or_0 b = 0"
    by (simp add: envy_or_0_def)
  have some: "\<forall>b n. envyCount b = Some n \<longrightarrow> envy_or_0 b = n"
    by (simp add: envy_or_0_def)
  have example: "\<forall>b1 b2 b3. envyCount b1 = Some 5 \<and> envyCount b2 = Some 9 \<and> envyCount b3 = Some 9
          \<and> st ! filtered = [b1, b2, b3] \<longrightarrow> st' ! r = [b2, b3, b1]"
    using ex by (simp add: out)
  from none some example show ?thesis
    unfolding out
    by (simp add: sorted_desc_array_sort mset_array_sort stable_array_sort)
qed

theorem envy_sort_descending_stable_witness:
  "map id_f (snd (displayBenefits Tab_ENVY 0 sample_store) ! fst (displayBenefits Tab_ENVY 0 sample_store))
     = [[0x32], [0x33], [0x31]]
   \<and> envy_or_0 (sample_benefit [] None) = 0"
proof -
  obtain r st' where d: "displayBenefits Tab_ENVY 0 sample_store = (r, st')"
    by (cases "displayBenefits Tab_ENVY 0 sample_store")
  have len: "0 < length sample_store"
    by (simp add: sample_store_def)
  note c = envy_sort_descending_stable [OF len d]
  have inp: "sample_store ! 0
      = [sample_benefit [0x31] (Some 5), sample_benefit [0x32] (Some 9), sample_benefit [0x33] (Some 9)]"
    by (simp add: sample_store_def)
  have counters: "envyCount (sample_benefit [0x31] (Some 5)) = Some 5
      \<and> envyCount (sample_benefit [0x32] (Some 9)) = Some 9
      \<and> envyCount (sample_benefit [0x33] (Some 9)) = Some 9"
    by (simp add: sample_benefit_def)
  from c inp counters
  have "st' ! r = [sample_benefit [0x32] (Some 9), sample_benefit [0x33] (Some 9), sample_benefit [0x31] (Some 5)]"
    by blast
  then have 1: "map id_f (st' ! r) = [[0x32], [0x33], [0x31]]"
    by (simp add: sample_benefit_def)
  have "envyCount (sample_benefit [] None) = None"
    by (simp add: sample_benefit_def)
  with c have 2: "envy_or_0 (sample_benefit [] None) = 0"
    by blast
  from 1 2 show ?thesis by (simp add: d)
qed

text \<open>
  Claim C9. Producing the display list leaves the filtered list as it was: the array
  that \<open>filteredBenefits\<close> refers to, and every other array that existed, holds the same
  elements in the same order afterwards. In envy mode the sorted list is a new array.
\<close>

theorem envy_sort_leaves_source:
  assumes "filtered < length st"
    and "displayBenefits tab filtered st = (r, st')"
  shows "st' ! filtered = st ! filtered
     \<and> take (length st) st' = st
     \<and> (tab = Tab_ENVY \<longrightarrow> r \<noteq> filtered \<and> r = length st
           \<and> st' ! r = array_sort envy_cmp (st ! filtered))
     \<and> (tab \<noteq> Tab_ENVY \<longrightarrow> r = filtered \<and> st' = st)"
proof (cases "tab = Tab_ENVY")
  case True
  with assms have "r = length st" and "st' = st @ [array_sort envy_cmp (st ! filtered)]"
    by (simp_all add: displayBenefits_envy)
  with assms(1) True show ?thesis by (simp add: nth_append)
next
  case False
  with assms show ?thesis by (simp add: displayBenefits_def)
qed

theorem envy_sort_leaves_source_witness:
  "snd (displayBenefits Tab_ENVY 0 sample_store) ! 0 = sample_store ! 0
   \<and> take (length sample_store) (snd (displayBenefits Tab_ENVY 0 sample_store)) = sample_store
   \<and> fst (displayBenefits Tab_ENVY 0 sample_store) \<noteq> 0
   \<and> displayBenefits Tab_ALL 0 sample_store = (0, sample_store)"
proof -
  obtain r st' where d: "displayBenefits Tab_ENVY 0 sample_store = (r, st')"
    by (cases "displayBenefits Tab_ENVY 0 sample_store")
  obtain r2 st2 where d2: "displayBenefits Tab_ALL 0 sample_store = (r2, st2)"
    by (cases "displayBenefits Tab_ALL 0 sample_store")
  have len: "0 < length sample_store"
    by (simp add: sample_store_def)
  from envy_sort_leaves_source [OF len d]
  have 1: "st' ! 0 = sample_store ! 0 \<and> take (length sample_store) st' = sample_store \<and> r \<noteq> 0"
    by blast
  from envy_sort_leaves_source [OF len d2]
  have 2: "r2 = 0 \<and> st2 = sample_store"
    by blast
  from 1 2 show ?thesis by (simp add: d d2)
qed

text \<open>Sorting the filtered array itself would change it: the copy is what keeps the
  source as it was.\<close>

lemma sort_in_place_writes:
  "snd (sort_in_place envy_cmp 0 sample_store) ! 0 \<noteq> sample_store ! 0"
  by (simp add: sort_in_place_def sample_store_def sample_benefit_def array_sort_def
      envy_cmp_def envy_or_0_def)

end
